theory Spec2Isabelle
  imports Main "HOL-Library.Word" "HOL-Library.Multiset"
begin

section \<open>Data model\<close>

text \<open>
  The key manager of \<^verbatim>\<open>src/backend/crypto/kmgr.c\<close> and
  \<^verbatim>\<open>src/common/kmgr_utils.c\<close>, in its backend build (the branches under
  \<^verbatim>\<open>#ifndef FRONTEND\<close>, where \<^verbatim>\<open>ereport(ERROR, ...)\<close> and
  \<^verbatim>\<open>elog(ERROR, ...)\<close> leave the function).

  A \<^verbatim>\<open>CryptoKey\<close> is handled by this code as a block of
  \<^verbatim>\<open>sizeof(CryptoKey)\<close> bytes: \<^verbatim>\<open>palloc0\<close> zeroes it and
  \<^verbatim>\<open>read(fd, key_p, sizeof(CryptoKey))\<close> fills it from a file. Its fields are
  looked at by the AEAD primitive only, which lives outside these two files. The
  structure is therefore modelled by its image, a list of bytes, and its size
  \<open>sz\<close> is a parameter, as is \<open>N\<close>, the constant
  \<^verbatim>\<open>KMGR_MAX_INTERNAL_KEYS\<close> (both come from headers).
\<close>

type_synonym byte = "8 word"

type_synonym CryptoKey = "byte list"

text \<open>
  The errors raised by the code, named after their messages. In the taxonomy of the
  specification \<open>CouldNotOpenDirectory\<close> on the primary directory is
  \<^emph>\<open>MissingKeystore\<close>, \<open>InvalidKeyIdentifier\<close>, \<open>TooManyKeys\<close> and
  \<open>ShortRead\<close> are \<^emph>\<open>Corrupt\<close>, \<open>PassphraseMismatch\<close> is
  \<^emph>\<open>BadPassphrase\<close> and \<open>FeatureNotSupported\<close> is \<^emph>\<open>FeatureDisabled\<close>.
  \<open>BufferOverrun\<close> stands for a write beyond the end of a C array.
\<close>

datatype error =
    CouldNotOpenDirectory
  | InvalidKeyIdentifier nat
  | TooManyKeys
  | CouldNotOpenFile
  | ShortRead nat
  | CouldNotRename
  | CouldNotRemove
  | PassphraseMismatch
  | FeatureNotSupported
  | AssertionFailed
  | BufferOverrun

text \<open>
  A directory is the list of its entries in the order \<^verbatim>\<open>ReadDir\<close> returns
  them, each a file name with the file's bytes. The data directory holds at most the
  two directories the key manager names.
\<close>

type_synonym directory = "(string \<times> byte list) list"

datatype path = KMGR_DIR | KMGR_TMP_DIR

record disk =
  pg_cryptokeys :: "directory option"
  pg_cryptokeys_tmp :: "directory option"

fun lookup_dir :: "disk \<Rightarrow> path \<Rightarrow> directory option" where
  "lookup_dir d KMGR_DIR = pg_cryptokeys d"
| "lookup_dir d KMGR_TMP_DIR = pg_cryptokeys_tmp d"

fun store_dir :: "path \<Rightarrow> directory option \<Rightarrow> disk \<Rightarrow> disk" where
  "store_dir KMGR_DIR x d = d\<lparr>pg_cryptokeys := x\<rparr>"
| "store_dir KMGR_TMP_DIR x d = d\<lparr>pg_cryptokeys_tmp := x\<rparr>"

text \<open>\<^verbatim>\<open>stat(path, &st) == 0\<close>: the directory exists.\<close>

definition stat_ok :: "disk \<Rightarrow> path \<Rightarrow> bool" where
  "stat_ok d p = (lookup_dir d p \<noteq> None)"

text \<open>
  \<^verbatim>\<open>rename(from, to)\<close> of a directory: it fails when \<open>from\<close> is missing or
  when \<open>to\<close> is a directory with entries, and replaces a missing or empty \<open>to\<close>.
\<close>

definition rename :: "path \<Rightarrow> path \<Rightarrow> disk \<Rightarrow> error + disk" where
  "rename from to d =
     (case lookup_dir d from of
        None \<Rightarrow> Inl CouldNotRename
      | Some x \<Rightarrow>
          if from = to then Inr d
          else (case lookup_dir d to of
                  Some (e # es) \<Rightarrow> Inl CouldNotRename
                | _ \<Rightarrow> Inr (store_dir from None (store_dir to (Some x) d))))"

text \<open>
  \<^verbatim>\<open>rmtree(path, true)\<close>: removes the directory with everything in it; the
  result is false when there was nothing to open.
\<close>

definition rmtree :: "path \<Rightarrow> disk \<Rightarrow> bool \<times> disk" where
  "rmtree p d = (lookup_dir d p \<noteq> None, store_dir p None d)"

section \<open>File names of keys\<close>

definition strlen :: "string \<Rightarrow> nat" where
  "strlen s = length s"

text \<open>\<^verbatim>\<open>strspn(s, accept)\<close>: the length of the longest prefix of \<open>s\<close> made of
  characters of \<open>accept\<close>.\<close>

definition strspn :: "string \<Rightarrow> string \<Rightarrow> nat" where
  "strspn s accept = length (takeWhile (\<lambda>c. c \<in> set accept) s)"

text \<open>The test of \<^verbatim>\<open>kmgr_get_cryptokeys\<close> on \<^verbatim>\<open>de->d_name\<close>.\<close>

definition is_key_name :: "string \<Rightarrow> bool" where
  "is_key_name name = (strlen name = 4 \<and> strspn name ''0123456789ABCDEF'' = 4)"

text \<open>The value of a digit in base 16, as \<^verbatim>\<open>strtoul\<close> reads it.\<close>

definition xdigit :: "char \<Rightarrow> nat option" where
  "xdigit c =
     (let n = (of_char c :: nat) in
      if 48 \<le> n \<and> n \<le> 57 then Some (n - 48)
      else if 65 \<le> n \<and> n \<le> 70 then Some (n - 55)
      else if 97 \<le> n \<and> n \<le> 102 then Some (n - 87)
      else None)"

text \<open>
  \<^verbatim>\<open>strtoul(s, NULL, 16)\<close> on a string that starts with a digit: digits are
  accumulated up to the first character that is none. (White space, a sign, a
  \<^verbatim>\<open>0x\<close> prefix and the saturation at \<^verbatim>\<open>ULONG_MAX\<close> do not occur on the
  four-digit names the caller passes.)
\<close>

fun strtoul16_from :: "nat \<Rightarrow> string \<Rightarrow> nat" where
  "strtoul16_from acc [] = acc"
| "strtoul16_from acc (c # cs) =
     (case xdigit c of
        None \<Rightarrow> acc
      | Some v \<Rightarrow> strtoul16_from (acc * 16 + v) cs)"

definition strtoul16 :: "string \<Rightarrow> nat" where
  "strtoul16 s = strtoul16_from 0 s"

definition hex_char :: "nat \<Rightarrow> char" where
  "hex_char v = ''0123456789ABCDEF'' ! (v mod 16)"

text \<open>
  Modelled from the spec: the macro \<^verbatim>\<open>CryptoKeyFilePath(path, dir, id)\<close> is
  defined in a header that is not part of the sources at hand; the specification has
  \<open>key_path(dir, id)\<close> yield \<open>dir/<hex(id)>\<close>, a 4-character uppercase hexadecimal
  file name. The function gives the file name inside \<open>dir\<close> for an identifier below
  \<open>16^4\<close>, the only identifiers a four-digit name can carry.
\<close>

definition CryptoKeyFilePath :: "nat \<Rightarrow> string" where
  "CryptoKeyFilePath kid =
     [hex_char (kid div 4096), hex_char (kid div 256), hex_char (kid div 16), hex_char kid]"

section \<open>Reading the keys of a directory\<close>

text \<open>
  \<^verbatim>\<open>read_one_keyfile\<close>: opens the file of the identifier and reads
  \<^verbatim>\<open>sizeof(CryptoKey)\<close> bytes into the slot; anything shorter is an error.
\<close>

definition read_one_keyfile :: "nat \<Rightarrow> directory \<Rightarrow> nat \<Rightarrow> error + CryptoKey" where
  "read_one_keyfile sz dir kid =
     (case map_of dir (CryptoKeyFilePath kid) of
        None \<Rightarrow> Inl CouldNotOpenFile
      | Some bytes \<Rightarrow>
          if length bytes < sz then Inl (ShortRead (length bytes))
          else Inr (take sz bytes))"

text \<open>
  The loop of \<^verbatim>\<open>kmgr_get_cryptokeys\<close> over the entries still to be returned by
  \<^verbatim>\<open>ReadDir\<close>, with the array \<open>keys\<close> and the counter \<open>nkeys\<close>.
  (\<^verbatim>\<open>id < 0\<close> is never true of an \<^verbatim>\<open>uint32\<close>.)
\<close>

fun read_entries ::
  "nat \<Rightarrow> nat \<Rightarrow> directory \<Rightarrow> directory \<Rightarrow> CryptoKey list \<Rightarrow> nat \<Rightarrow>
   error + (CryptoKey list \<times> nat)" where
  "read_entries N sz dir [] keys nkeys = Inr (keys, nkeys)"
| "read_entries N sz dir (de # rest) keys nkeys =
     (if is_key_name (fst de) then
        (let kid = strtoul16 (fst de) in
         if kid \<ge> N then Inl (InvalidKeyIdentifier kid)
         else if nkeys \<ge> N then Inl TooManyKeys
         else (case read_one_keyfile sz dir kid of
                 Inl e \<Rightarrow> Inl e
               | Inr k \<Rightarrow> read_entries N sz dir rest (keys[kid := k]) (Suc nkeys)))
      else read_entries N sz dir rest keys nkeys)"

definition kmgr_get_cryptokeys ::
  "nat \<Rightarrow> nat \<Rightarrow> disk \<Rightarrow> path \<Rightarrow> error + (CryptoKey list \<times> nat)" where
  "kmgr_get_cryptokeys N sz d p =
     (case lookup_dir d p of
        None \<Rightarrow> Inl CouldNotOpenDirectory
      | Some dir \<Rightarrow> read_entries N sz dir dir (replicate N (replicate sz 0)) 0)"

section \<open>Recovery of an interrupted rotation\<close>

text \<open>
  \<^verbatim>\<open>recoverIncompleteRotation\<close>: the result is the error raised, if any, and the
  state of the disk afterwards.
\<close>

definition recoverIncompleteRotation :: "nat \<Rightarrow> nat \<Rightarrow> disk \<Rightarrow> error option \<times> disk" where
  "recoverIncompleteRotation N sz d =
     (if \<not> stat_ok d KMGR_TMP_DIR then (None, d)
      else if \<not> stat_ok d KMGR_DIR then
        (case rename KMGR_TMP_DIR KMGR_DIR d of
           Inl e \<Rightarrow> (Some e, d)
         | Inr d' \<Rightarrow> (None, d'))
      else
        (case kmgr_get_cryptokeys N sz d KMGR_TMP_DIR of
           Inl e \<Rightarrow> (Some e, d)
         | Inr (keys, nkeys_tmp) \<Rightarrow>
             if nkeys_tmp = N then
               (case rmtree KMGR_DIR d of
                  (removed, d1) \<Rightarrow>
                    if \<not> removed then (Some CouldNotRemove, d1)
                    else (case rename KMGR_TMP_DIR KMGR_DIR d1 of
                            Inl e \<Rightarrow> (Some e, d1)
                          | Inr d2 \<Rightarrow> (None, d2)))
             else
               (case rmtree KMGR_TMP_DIR d of
                  (removed, d1) \<Rightarrow>
                    if \<not> removed then (Some CouldNotRemove, d1) else (None, d1))))"

section \<open>Verifying the passphrase\<close>

text \<open>
  The AEAD primitive is not part of the two files, so it is a parameter:
  \<open>pg_create_aead_ctx\<close> makes the context from the encryption key and the MAC key;
  \<open>pg_aead_encrypt\<close> and \<open>pg_aead_decrypt\<close> take the context, the input key and
  the output key as it is before the call, and give their boolean result with the
  output key as it is after the call. \<open>user_enckey\<close> and \<open>user_hmackey\<close> are what
  the arrays of these names in \<^verbatim>\<open>kmgr_verify_passphrase\<close> hold when the function
  is entered: it declares them without initialising them. Their contents are taken
  as given, the same at every call.
\<close>

record 'ctx aead =
  user_enckey :: "byte list"
  user_hmackey :: "byte list"
  pg_create_aead_ctx :: "byte list \<Rightarrow> byte list \<Rightarrow> 'ctx"
  pg_aead_encrypt :: "'ctx \<Rightarrow> CryptoKey \<Rightarrow> CryptoKey \<Rightarrow> bool \<times> CryptoKey"
  pg_aead_decrypt :: "'ctx \<Rightarrow> CryptoKey \<Rightarrow> CryptoKey \<Rightarrow> bool \<times> CryptoKey"

text \<open>
  \<^verbatim>\<open>kmgr_derive_keys\<close>: the result is the two output arrays after the call.
  Between its two log messages the body has no statement, so the arrays are left as
  they were, whatever the passphrase.
\<close>

definition kmgr_derive_keys ::
  "string \<Rightarrow> nat \<Rightarrow> byte list \<Rightarrow> byte list \<Rightarrow> byte list \<times> byte list" where
  "kmgr_derive_keys passphrase passlen enckey mackey = (enckey, mackey)"

text \<open>
  The first two statements of \<^verbatim>\<open>kmgr_verify_passphrase\<close>: the keys are derived
  into the two local arrays, and the context is created from them.
\<close>

definition create_ctx :: "'ctx aead \<Rightarrow> string \<Rightarrow> 'ctx" where
  "create_ctx A passphrase =
     (case kmgr_derive_keys passphrase (length passphrase) (user_enckey A) (user_hmackey A) of
        (enckey, mackey) \<Rightarrow> pg_create_aead_ctx A enckey mackey)"

definition kmgr_wrap_key ::
  "'ctx aead \<Rightarrow> 'ctx \<Rightarrow> CryptoKey \<Rightarrow> CryptoKey \<Rightarrow> bool \<times> CryptoKey" where
  "kmgr_wrap_key A ctx inp out =
     (case pg_aead_encrypt A ctx inp out of
        (ok, out') \<Rightarrow> if \<not> ok then (False, out') else (True, out'))"

definition kmgr_unwrap_key ::
  "'ctx aead \<Rightarrow> 'ctx \<Rightarrow> CryptoKey \<Rightarrow> CryptoKey \<Rightarrow> bool \<times> CryptoKey" where
  "kmgr_unwrap_key A ctx inp out =
     (case pg_aead_decrypt A ctx inp out of
        (ok, out') \<Rightarrow> if \<not> ok then (False, out') else (True, out'))"

text \<open>
  The loop of \<^verbatim>\<open>kmgr_verify_passphrase\<close> over the indices still to visit:
  each key is unwrapped straight into its slot of \<open>keys_out\<close>, and the first
  failure returns false.
\<close>

fun unwrap_keys ::
  "'ctx aead \<Rightarrow> 'ctx \<Rightarrow> CryptoKey list \<Rightarrow> nat list \<Rightarrow> CryptoKey list \<Rightarrow>
   bool \<times> CryptoKey list" where
  "unwrap_keys A ctx keys_in [] keys_out = (True, keys_out)"
| "unwrap_keys A ctx keys_in (i # rest) keys_out =
     (case kmgr_unwrap_key A ctx (keys_in ! i) (keys_out ! i) of
        (ok, k) \<Rightarrow>
          if \<not> ok then (False, keys_out[i := k])
          else unwrap_keys A ctx keys_in rest (keys_out[i := k]))"

text \<open>
  \<^verbatim>\<open>kmgr_verify_passphrase\<close>: the result and \<open>keys_out\<close> afterwards. Both
  arrays must have \<open>nkeys\<close> elements; a shorter one is an access out of bounds.
\<close>

definition kmgr_verify_passphrase ::
  "'ctx aead \<Rightarrow> string \<Rightarrow> CryptoKey list \<Rightarrow> CryptoKey list \<Rightarrow> nat \<Rightarrow>
   error + (bool \<times> CryptoKey list)" where
  "kmgr_verify_passphrase A passphrase keys_in keys_out nkeys =
     (if length keys_in < nkeys \<or> length keys_out < nkeys then Inl BufferOverrun
      else Inr (unwrap_keys A (create_ctx A passphrase) keys_in [0..<nkeys] keys_out))"

section \<open>The key manager\<close>

text \<open>
  The state the backend functions work on: the data directory and the array
  \<^verbatim>\<open>KmgrShmem->intlKeys\<close> in shared memory.
\<close>

record system =
  data_dir :: disk
  intlKeys :: "CryptoKey list"


text \<open>
  \<^verbatim>\<open>InitializeKmgr\<close>: \<open>passphrase\<close> is what the passphrase command printed.
  \<^verbatim>\<open>Assert(nkeys == KMGR_MAX_INTERNAL_KEYS)\<close> is taken as checked. The result is
  the error raised, if any, and the state afterwards.
\<close>

definition InitializeKmgr ::
  "bool \<Rightarrow> nat \<Rightarrow> nat \<Rightarrow> 'ctx aead \<Rightarrow> string \<Rightarrow> system \<Rightarrow> error option \<times> system" where
  "InitializeKmgr key_management_enabled N sz A passphrase s =
     (if \<not> key_management_enabled then (None, s)
      else
        (case recoverIncompleteRotation N sz (data_dir s) of
           (Some e, d) \<Rightarrow> (Some e, s\<lparr>data_dir := d\<rparr>)
         | (None, d) \<Rightarrow>
             (case kmgr_get_cryptokeys N sz d KMGR_DIR of
                Inl e \<Rightarrow> (Some e, s\<lparr>data_dir := d\<rparr>)
              | Inr (keys_wrap, nkeys) \<Rightarrow>
                  if nkeys \<noteq> N then (Some AssertionFailed, s\<lparr>data_dir := d\<rparr>)
                  else
                    (case kmgr_verify_passphrase A passphrase keys_wrap (intlKeys s) N of
                       Inl e \<Rightarrow> (Some e, s\<lparr>data_dir := d\<rparr>)
                     | Inr (ok, keys_out) \<Rightarrow>
                         if \<not> ok
                         then (Some PassphraseMismatch, s\<lparr>data_dir := d, intlKeys := keys_out\<rparr>)
                         else (None, s\<lparr>data_dir := d, intlKeys := keys_out\<rparr>)))))"

text \<open>
  \<^verbatim>\<open>KmgrGetKey\<close>: the pointer returned is \<open>None\<close> when it is
  \<^verbatim>\<open>NULL\<close>, and otherwise the key it points to. The body between the
  assertion and the \<^verbatim>\<open>return\<close> is empty in the source.
\<close>

definition KmgrGetKey :: "nat \<Rightarrow> system \<Rightarrow> int \<Rightarrow> error + CryptoKey option" where
  "KmgrGetKey N s kid =
     (if \<not> kid < int N then Inl AssertionFailed
      else (let thekey = None in Inr thekey))"


section \<open>The passphrase command\<close>

definition KMGR_PROMPT_MSG :: string where
  "KMGR_PROMPT_MSG = ''Enter database encryption pass phrase:''"

text \<open>\<^verbatim>\<open>if (dp < endp) *dp++ = c\<close>, with \<open>endp = command + MAXPGPATH - 1\<close> and
  \<open>dp\<close> at the end of what has been written.\<close>

definition put_char :: "nat \<Rightarrow> string \<Rightarrow> char \<Rightarrow> string" where
  "put_char MAXPGPATH command c =
     (if length command < MAXPGPATH - 1 then command @ [c] else command)"

text \<open>
  The loop of \<^verbatim>\<open>kmgr_run_cluster_passphrase_command\<close> that builds the command
  from the template, and the final \<^verbatim>\<open>*dp = '\0'\<close>. The arguments are the size
  \<open>MAXPGPATH\<close> of the array \<^verbatim>\<open>command\<close>, the macro \<^verbatim>\<open>StrNCpy\<close>
  (from a header that is not part of the sources at hand: \<open>StrNCpy src len\<close> is
  what the macro leaves in the \<open>len\<close> bytes at its destination), the rest of the
  template at \<open>p\<close> and the bytes written so far. The case \<^verbatim>\<open>'p'\<close> does not
  compare \<open>dp\<close> with \<open>endp\<close>; there and at the final write, leaving the array is
  \<open>BufferOverrun\<close>.
\<close>

fun build_command ::
  "nat \<Rightarrow> (string \<Rightarrow> nat \<Rightarrow> string) \<Rightarrow> string \<Rightarrow> string \<Rightarrow> error + string" where
  "build_command MAXPGPATH StrNCpy [] command =
     (if length command < MAXPGPATH then Inr command else Inl BufferOverrun)"
| "build_command MAXPGPATH StrNCpy [c] command =
     build_command MAXPGPATH StrNCpy [] (put_char MAXPGPATH command c)"
| "build_command MAXPGPATH StrNCpy (c # x # rest) command =
     (if c = CHR ''%'' then
        (if x = CHR ''p'' then
           (if MAXPGPATH < length command + strlen KMGR_PROMPT_MSG then Inl BufferOverrun
            else build_command MAXPGPATH StrNCpy rest
                   (command @ StrNCpy KMGR_PROMPT_MSG (strlen KMGR_PROMPT_MSG)))
         else if x = CHR ''%'' then
           build_command MAXPGPATH StrNCpy rest (put_char MAXPGPATH command x)
         else build_command MAXPGPATH StrNCpy (x # rest) (put_char MAXPGPATH command c))
      else build_command MAXPGPATH StrNCpy (x # rest) (put_char MAXPGPATH command c))"

text \<open>
  \<^verbatim>\<open>kmgr_run_cluster_passphrase_command\<close> up to the call of
  \<^verbatim>\<open>OpenPipeStream\<close>: the result is the command it has built in
  \<^verbatim>\<open>command\<close>. Running the command and reading its output are left to the
  operating system.
\<close>

definition kmgr_run_cluster_passphrase_command ::
  "nat \<Rightarrow> (string \<Rightarrow> nat \<Rightarrow> string) \<Rightarrow> string \<Rightarrow> error + string" where
  "kmgr_run_cluster_passphrase_command MAXPGPATH StrNCpy passphrase_command =
     build_command MAXPGPATH StrNCpy passphrase_command []"

text \<open>
  The command as the specification describes it, before any truncation: \<open>%p\<close> gives
  the prompt, \<open>%%\<close> gives \<open>%\<close>, any other \<open>%X\<close> gives \<open>X\<close>, and every other
  character gives itself.
\<close>

fun specified_command :: "string \<Rightarrow> string" where
  "specified_command [] = []"
| "specified_command [c] = [c]"
| "specified_command (c # x # rest) =
     (if c = CHR ''%'' then
        (if x = CHR ''p'' then KMGR_PROMPT_MSG @ specified_command rest
         else x # specified_command rest)
      else c # specified_command (x # rest))"

text \<open>
  The same with the one difference that the code makes by design: a \<open>%\<close> that is
  followed by neither \<open>p\<close> nor \<open>%\<close> is kept.
\<close>

fun expanded_command :: "string \<Rightarrow> string" where
  "expanded_command [] = []"
| "expanded_command [c] = [c]"
| "expanded_command (c # x # rest) =
     (if c = CHR ''%'' then
        (if x = CHR ''p'' then KMGR_PROMPT_MSG @ expanded_command rest
         else if x = CHR ''%'' then x # expanded_command rest
         else c # expanded_command (x # rest))
      else c # expanded_command (x # rest))"

text \<open>Whether the loop meets the token \<open>%p\<close> in the template.\<close>

fun has_prompt :: "string \<Rightarrow> bool" where
  "has_prompt [] = False"
| "has_prompt [c] = False"
| "has_prompt (c # x # rest) =
     (if c = CHR ''%'' then
        (if x = CHR ''p'' then True
         else if x = CHR ''%'' then has_prompt rest
         else has_prompt (x # rest))
      else has_prompt (x # rest))"

section \<open>The rotation protocol\<close>



section \<open>Notions used in the statements\<close>

text \<open>The entries of a directory that \<^verbatim>\<open>kmgr_get_cryptokeys\<close> takes for key files.\<close>

definition key_entries :: "directory \<Rightarrow> directory" where
  "key_entries dir = filter (\<lambda>de. is_key_name (fst de)) dir"

text \<open>
  An entry the loop reads without an error: its identifier is below \<open>N\<close> and the
  file of that name has at least \<open>sz\<close> bytes.
\<close>

definition readable :: "nat \<Rightarrow> nat \<Rightarrow> directory \<Rightarrow> string \<times> byte list \<Rightarrow> bool" where
  "readable N sz dir de =
     (strtoul16 (fst de) < N \<and> (\<exists>bytes. map_of dir (fst de) = Some bytes \<and> sz \<le> length bytes))"

text \<open>The errors that the specification counts as \<^emph>\<open>Corrupt\<close>.\<close>

fun Corrupt :: "error \<Rightarrow> bool" where
  "Corrupt (InvalidKeyIdentifier kid) = True"
| "Corrupt TooManyKeys = True"
| "Corrupt (ShortRead n) = True"
| "Corrupt e = False"

text \<open>
  An instance of the parameters on keys of two bytes, for running the model on
  concrete inputs. The uninitialised array of the encryption key holds the byte 2,
  and the context is that byte; a wrapped key is the context followed by the first
  byte of the key; unwrapping compares the first byte with the context, fails without
  touching the output on a mismatch, and otherwise gives the key byte followed by
  zero.
\<close>

definition tag_aead :: "byte aead" where
  "tag_aead =
     \<lparr>user_enckey = [2],
      user_hmackey = [],
      pg_create_aead_ctx = (\<lambda>enckey mackey. hd enckey),
      pg_aead_encrypt = (\<lambda>ctx inp out. (True, [ctx, hd inp])),
      pg_aead_decrypt = (\<lambda>ctx inp out.
         if hd inp = ctx then (True, [hd (tl inp), 0]) else (False, out))\<rparr>"

text \<open>
  An instance of the parameter \<^verbatim>\<open>StrNCpy\<close>, for running the command loop on
  concrete templates: the first \<open>len - 1\<close> bytes of the source followed by a null
  byte, which is what \<^verbatim>\<open>strncpy\<close> and a terminator written into the last of the
  \<open>len\<close> places leave of a source of at least \<open>len - 1\<close> bytes.
\<close>

definition terminated_copy :: "string \<Rightarrow> nat \<Rightarrow> string" where
  "terminated_copy src len = take (len - 1) src @ [CHR 0x00]"

section \<open>Names of key files\<close>

lemma length_takeWhile_all:
  "length (takeWhile P xs) = length xs \<longleftrightarrow> (\<forall>x\<in>set xs. P x)"
proof (induction xs)
  case Nil
  show ?case by simp
next
  case (Cons x xs)
  have "length (takeWhile P xs) \<le> length xs"
    by (rule length_takeWhile_le)
  with Cons show ?case by auto
qed

lemma length_takeWhile_all_eq:
  "(length xs = n \<and> length (takeWhile P xs) = n) \<longleftrightarrow> (length xs = n \<and> (\<forall>x\<in>set xs. P x))"
  using length_takeWhile_all [of P xs] by auto

lemma is_key_name_iff:
  "is_key_name name \<longleftrightarrow> length name = 4 \<and> (\<forall>c\<in>set name. c \<in> set ''0123456789ABCDEF'')"
  unfolding is_key_name_def strlen_def strspn_def by (rule length_takeWhile_all_eq)

lemma hex_char_xdigit:
  "c \<in> set ''0123456789ABCDEF'' \<Longrightarrow> xdigit c = Some v \<Longrightarrow> v < 16 \<and> hex_char v = c"
  unfolding xdigit_def hex_char_def by (simp, elim disjE) simp_all

lemma xdigit_defined:
  "c \<in> set ''0123456789ABCDEF'' \<Longrightarrow> xdigit c \<noteq> None"
  unfolding xdigit_def by (simp, elim disjE) simp_all

lemma hex_char_in: "hex_char v \<in> set ''0123456789ABCDEF''"
proof -
  have "v mod 16 < length ''0123456789ABCDEF''" by simp
  then show ?thesis unfolding hex_char_def by (rule nth_mem)
qed

lemma xdigit_hex_char: "xdigit (hex_char v) = Some (v mod 16)"
proof -
  have enum: "m = 0 \<or> m = 1 \<or> m = 2 \<or> m = 3 \<or> m = 4 \<or> m = 5 \<or> m = 6 \<or> m = 7 \<or>
      m = 8 \<or> m = 9 \<or> m = 10 \<or> m = 11 \<or> m = 12 \<or> m = 13 \<or> m = 14 \<or> m = 15"
    if "m < 16" for m :: nat
    using that by arith
  have "v mod 16 < 16" by simp
  from enum [OF this] show ?thesis
    unfolding hex_char_def xdigit_def by (elim disjE) simp_all
qed

lemma strtoul16_key_name:
  assumes "is_key_name name"
  shows "strtoul16 name < 65536 \<and> CryptoKeyFilePath (strtoul16 name) = name"
proof -
  from assms have len: "length name = 4"
    and digits: "\<forall>c\<in>set name. c \<in> set ''0123456789ABCDEF''"
    by (simp_all add: is_key_name_iff)
  from len obtain a b c d where name: "name = [a, b, c, d]"
    by (auto simp: length_Suc_conv numeral_eq_Suc)
  obtain va vb vc vd where v: "xdigit a = Some va" "xdigit b = Some vb"
      "xdigit c = Some vc" "xdigit d = Some vd"
    using digits xdigit_defined unfolding name by (metis list.set_intros not_None_eq)
  have bounds: "va < 16" "vb < 16" "vc < 16" "vd < 16"
    and chars: "hex_char va = a" "hex_char vb = b" "hex_char vc = c" "hex_char vd = d"
    using digits v hex_char_xdigit unfolding name by (metis list.set_intros)+
  have val: "strtoul16 name = ((va * 16 + vb) * 16 + vc) * 16 + vd"
    by (simp add: strtoul16_def name v)
  define x1 where "x1 = va * 16 + vb"
  define x2 where "x2 = x1 * 16 + vc"
  have val': "strtoul16 name = x2 * 16 + vd"
    by (simp only: val x1_def x2_def)
  have step: "(x * 16 + q) div 16 = x \<and> (x * 16 + q) mod 16 = q" if "q < 16" for x q :: nat
    using that by simp
  have d256: "x div 256 = x div 16 div 16" and d4096: "x div 4096 = x div 16 div 16 div 16"
    for x :: nat
    using div_mult2_eq [of x 16 16] div_mult2_eq [of x 256 16] by simp_all
  have q1: "strtoul16 name div 16 = x2" and r1: "strtoul16 name mod 16 = vd"
    using step [OF bounds(4), of x2] by (simp_all only: val')
  have q2: "x2 div 16 = x1" and r2: "x2 mod 16 = vc"
    using step [OF bounds(3), of x1] by (simp_all only: x2_def)
  have q3: "x1 div 16 = va" and r3: "x1 mod 16 = vb"
    using step [OF bounds(2), of va] by (simp_all only: x1_def)
  have "hex_char (strtoul16 name div 4096) = hex_char va"
    "hex_char (strtoul16 name div 256) = hex_char vb"
    "hex_char (strtoul16 name div 16) = hex_char vc"
    "hex_char (strtoul16 name) = hex_char vd"
    unfolding hex_char_def d256 d4096 q1 q2 q3 r1 r2 r3 using bounds by simp_all
  then have "CryptoKeyFilePath (strtoul16 name) = [a, b, c, d]"
    unfolding CryptoKeyFilePath_def chars by (simp only:)
  then have "CryptoKeyFilePath (strtoul16 name) = name"
    by (simp only: name)
  moreover have "strtoul16 name < 65536"
  proof -
    have "x1 < 256" unfolding x1_def using bounds by simp
    then have "x2 < 4096" unfolding x2_def using bounds by simp
    then show ?thesis unfolding val' using bounds by simp
  qed
  ultimately show ?thesis
    by blast
qed

lemma CryptoKeyFilePath_key_name:
  assumes "kid < 65536"
  shows "is_key_name (CryptoKeyFilePath kid) \<and> strtoul16 (CryptoKeyFilePath kid) = kid"
proof -
  have name: "is_key_name (CryptoKeyFilePath kid)"
    unfolding is_key_name_iff CryptoKeyFilePath_def using hex_char_in by simp
  have v: "strtoul16 (CryptoKeyFilePath kid) =
      ((kid div 4096 mod 16 * 16 + kid div 256 mod 16) * 16 + kid div 16 mod 16) * 16 + kid mod 16"
    by (simp add: strtoul16_def CryptoKeyFilePath_def xdigit_hex_char)
  have a: "kid div 4096 mod 16 = kid div 4096"
    using assms by simp
  have b: "kid div 4096 * 16 + kid div 256 mod 16 = kid div 256"
    using div_mult2_eq [of kid 256 16] div_mult_mod_eq [of "kid div 256" 16] by (simp only: numeral_times_numeral) simp
  have c: "kid div 256 * 16 + kid div 16 mod 16 = kid div 16"
    using div_mult2_eq [of kid 16 16] div_mult_mod_eq [of "kid div 16" 16] by (simp only: numeral_times_numeral) simp
  have d: "kid div 16 * 16 + kid mod 16 = kid"
    by (rule div_mult_mod_eq)
  show ?thesis
    using name by (simp only: v a b c d simp_thms)
qed

section \<open>The loop over the directory\<close>

lemma CryptoKeyFilePath_is_key_name: "is_key_name (CryptoKeyFilePath kid)"
  unfolding is_key_name_iff CryptoKeyFilePath_def using hex_char_in by simp

lemma map_of_key_entries:
  "is_key_name name \<Longrightarrow> map_of (key_entries dir) name = map_of dir name"
  unfolding key_entries_def by (induction dir) auto

lemma read_one_keyfile_key_entries:
  "read_one_keyfile sz (key_entries dir) kid = read_one_keyfile sz dir kid"
  unfolding read_one_keyfile_def
  by (simp add: map_of_key_entries CryptoKeyFilePath_is_key_name)

lemma read_entries_skip:
  "read_entries N sz dir (key_entries es) keys nkeys = read_entries N sz dir es keys nkeys"
  unfolding key_entries_def
  by (induction es arbitrary: keys nkeys) (simp_all add: Let_def split: sum.splits)

lemma read_entries_dir_key_entries:
  "read_entries N sz (key_entries dir) es keys nkeys = read_entries N sz dir es keys nkeys"
  by (induction es arbitrary: keys nkeys)
    (simp_all add: Let_def read_one_keyfile_key_entries split: sum.splits)

lemma read_one_keyfile_name:
  assumes "is_key_name name"
  shows "read_one_keyfile sz dir (strtoul16 name) =
    (case map_of dir name of
       None \<Rightarrow> Inl CouldNotOpenFile
     | Some bytes \<Rightarrow> if length bytes < sz then Inl (ShortRead (length bytes)) else Inr (take sz bytes))"
  unfolding read_one_keyfile_def using strtoul16_key_name [OF assms] by simp

lemma read_entries_Inr_iff:
  "nkeys \<le> N \<Longrightarrow> (\<exists>r. read_entries N sz dir es keys nkeys = Inr r) \<longleftrightarrow>
     (\<forall>de\<in>set (key_entries es). readable N sz dir de) \<and> nkeys + length (key_entries es) \<le> N"
proof (induction es arbitrary: keys nkeys)
  case Nil
  then show ?case by (simp add: key_entries_def)
next
  case (Cons de es)
  show ?case
  proof (cases "is_key_name (fst de)")
    case False
    then show ?thesis using Cons.IH [of nkeys keys] Cons.prems by (simp add: key_entries_def)
  next
    case True
    note name = this
    show ?thesis
    proof (cases "readable N sz dir de \<and> nkeys < N")
      case False
      then have "\<exists>e. read_entries N sz dir (de # es) keys nkeys = Inl e"
        using name by (auto simp: readable_def Let_def read_one_keyfile_name split: option.splits)
      moreover have "\<not> ((\<forall>x\<in>set (key_entries (de # es)). readable N sz dir x) \<and>
          nkeys + length (key_entries (de # es)) \<le> N)"
        using False name by (auto simp: key_entries_def)
      ultimately show ?thesis by auto
    next
      case True
      then obtain bytes where b: "map_of dir (fst de) = Some bytes" "sz \<le> length bytes"
        and lt: "strtoul16 (fst de) < N" "nkeys < N"
        by (auto simp: readable_def)
      have "read_entries N sz dir (de # es) keys nkeys =
          read_entries N sz dir es (keys[strtoul16 (fst de) := take sz bytes]) (Suc nkeys)"
        using name b lt by (simp add: Let_def read_one_keyfile_name)
      then show ?thesis
        using Cons.IH [of "Suc nkeys" "keys[strtoul16 (fst de) := take sz bytes]"] True name
        by (auto simp: key_entries_def)
    qed
  qed
qed


lemma read_entries_result:
  assumes "read_entries N sz dir es keys nkeys = Inr (keys', nkeys')"
  shows "nkeys' = nkeys + length (key_entries es) \<and> length keys' = length keys \<and>
    (\<forall>i<length keys. keys' ! i =
       (if \<exists>de\<in>set (key_entries es). strtoul16 (fst de) = i
        then take sz (the (map_of dir (CryptoKeyFilePath i))) else keys ! i))"
  using assms
proof (induction es arbitrary: keys nkeys)
  case Nil
  then show ?case by (simp add: key_entries_def)
next
  case (Cons de es)
  show ?case
  proof (cases "is_key_name (fst de)")
    case False
    then have "read_entries N sz dir es keys nkeys = Inr (keys', nkeys')"
      using Cons.prems by simp
    from Cons.IH [OF this] False show ?thesis by (simp add: key_entries_def)
  next
    case True
    define kid where "kid = strtoul16 (fst de)"
    from Cons.prems True obtain k where k: "read_one_keyfile sz dir kid = Inr k"
      and rest: "read_entries N sz dir es (keys[kid := k]) (Suc nkeys) = Inr (keys', nkeys')"
      by (auto simp: Let_def kid_def split: if_splits sum.splits)
    have k_eq: "k = take sz (the (map_of dir (CryptoKeyFilePath kid)))"
      using k by (auto simp: read_one_keyfile_def split: option.splits if_splits)
    have ents: "key_entries (de # es) = de # key_entries es"
      using True by (simp add: key_entries_def)
    from Cons.IH [OF rest]
    have n: "nkeys' = Suc nkeys + length (key_entries es)"
      and len: "length keys' = length keys"
      and slots: "\<And>i. i < length keys \<Longrightarrow> keys' ! i =
        (if \<exists>de\<in>set (key_entries es). strtoul16 (fst de) = i
         then take sz (the (map_of dir (CryptoKeyFilePath i))) else keys[kid := k] ! i)"
      by simp_all
    have "keys' ! i =
        (if \<exists>x\<in>set (key_entries (de # es)). strtoul16 (fst x) = i
         then take sz (the (map_of dir (CryptoKeyFilePath i))) else keys ! i)"
      if "i < length keys" for i
      using slots [OF that] that by (auto simp: ents kid_def [symmetric] k_eq nth_list_update)
    with n len show ?thesis by (simp add: ents)
  qed
qed

lemma read_entries_error:
  assumes "read_entries N sz dir es keys nkeys = Inl e" and "set es \<subseteq> set dir"
  shows "e = TooManyKeys \<or> (\<exists>kid. e = InvalidKeyIdentifier kid) \<or> (\<exists>n. e = ShortRead n)"
  using assms
proof (induction es arbitrary: keys nkeys)
  case Nil
  then show ?case by simp
next
  case (Cons de es)
  show ?case
  proof (cases "is_key_name (fst de)")
    case False
    then show ?thesis using Cons by simp
  next
    case True
    have "de \<in> set dir" using Cons.prems by simp
    then have "map_of dir (fst de) \<noteq> None"
      by (metis domIff dom_map_of_conv_image_fst imageI)
    then show ?thesis
      using Cons True
      by (auto simp: Let_def read_one_keyfile_name split: if_splits sum.splits option.splits)
  qed
qed


lemma lookup_store_dir: "lookup_dir (store_dir p x d) p = x"
  by (cases p) simp_all

lemma key_entry_slot:
  assumes "i < 65536"
  shows "(\<exists>de\<in>set (key_entries dir). strtoul16 (fst de) = i) \<longleftrightarrow>
    map_of dir (CryptoKeyFilePath i) \<noteq> None"
proof
  assume "\<exists>de\<in>set (key_entries dir). strtoul16 (fst de) = i"
  then obtain de where de: "de \<in> set dir" "is_key_name (fst de)" "strtoul16 (fst de) = i"
    by (auto simp: key_entries_def)
  then have "CryptoKeyFilePath i = fst de"
    using strtoul16_key_name by blast
  then have "CryptoKeyFilePath i \<in> fst ` set dir"
    using de(1) by (metis imageI)
  then show "map_of dir (CryptoKeyFilePath i) \<noteq> None"
    by (simp add: map_of_eq_None_iff)
next
  assume "map_of dir (CryptoKeyFilePath i) \<noteq> None"
  then obtain bytes where "map_of dir (CryptoKeyFilePath i) = Some bytes"
    by blast
  then have "(CryptoKeyFilePath i, bytes) \<in> set dir"
    by (rule map_of_SomeD)
  moreover have "strtoul16 (CryptoKeyFilePath i) = i"
    using CryptoKeyFilePath_key_name [OF assms] by simp
  ultimately show "\<exists>de\<in>set (key_entries dir). strtoul16 (fst de) = i"
    using CryptoKeyFilePath_is_key_name [of i] by (force simp: key_entries_def)
qed

lemma read_entries_slots:
  assumes ok: "read_entries N sz dir dir (replicate N (replicate sz 0)) 0 = Inr (keys, nkeys)"
    and N: "N \<le> 65536"
  shows "length keys = N" and "nkeys = length (key_entries dir)"
    and "\<forall>i<N. keys ! i =
      (case map_of dir (CryptoKeyFilePath i) of
         None \<Rightarrow> replicate sz 0 | Some bytes \<Rightarrow> take sz bytes)"
    and "\<forall>i<N. length (keys ! i) = sz"
proof -
  note r = read_entries_result [OF ok]
  show "length keys = N" and "nkeys = length (key_entries dir)"
    using r by simp_all
  have slot: "keys ! i =
      (case map_of dir (CryptoKeyFilePath i) of
         None \<Rightarrow> replicate sz 0 | Some bytes \<Rightarrow> take sz bytes)" if "i < N" for i
  proof -
    have "i < 65536" using that N by simp
    from key_entry_slot [OF this, of dir] r that show ?thesis
      by (auto split: option.splits)
  qed
  then show "\<forall>i<N. keys ! i =
      (case map_of dir (CryptoKeyFilePath i) of
         None \<Rightarrow> replicate sz 0 | Some bytes \<Rightarrow> take sz bytes)"
    by blast
  have all: "\<forall>de\<in>set (key_entries dir). readable N sz dir de"
    using read_entries_Inr_iff [of 0 N sz dir dir "replicate N (replicate sz 0)"] ok by auto
  show "\<forall>i<N. length (keys ! i) = sz"
  proof (intro allI impI)
    fix i assume i: "i < N"
    show "length (keys ! i) = sz"
    proof (cases "map_of dir (CryptoKeyFilePath i)")
      case None
      then show ?thesis using slot [OF i] by simp
    next
      case (Some bytes)
      then have "(CryptoKeyFilePath i, bytes) \<in> set (key_entries dir)"
        using CryptoKeyFilePath_is_key_name [of i] by (auto simp: key_entries_def dest: map_of_SomeD)
      with all Some have "sz \<le> length bytes"
        by (force simp: readable_def)
      then show ?thesis using slot [OF i] Some by simp
    qed
  qed
qed

lemma read_entries_permuted:
  assumes ok: "read_entries N sz dir dir (replicate N (replicate sz 0)) 0 = Inr (keys, nkeys)"
    and N: "N \<le> 65536"
    and perm: "mset dir' = mset dir" and dist: "distinct (map fst dir)"
  shows "read_entries N sz dir' dir' (replicate N (replicate sz 0)) 0 = Inr (keys, nkeys)"
proof -
  have sets: "set dir' = set dir"
    using perm by (rule mset_eq_setD)
  have "mset (map fst dir') = mset (map fst dir)"
    using perm by simp
  then have dist': "distinct (map fst dir')"
    using dist by (metis mset_eq_imp_distinct_iff)
  have maps: "map_of dir' = map_of dir"
    using map_of_inject_set [OF dist' dist] sets by simp
  have "mset (key_entries dir') = mset (key_entries dir)"
    unfolding key_entries_def using perm by simp
  then have len: "length (key_entries dir') = length (key_entries dir)"
    by (rule mset_eq_length)
  have ksets: "set (key_entries dir') = set (key_entries dir)"
    unfolding key_entries_def using sets by simp
  have "(\<forall>de\<in>set (key_entries dir). readable N sz dir de) \<and> 0 + length (key_entries dir) \<le> N"
    using read_entries_Inr_iff [of 0 N sz dir dir "replicate N (replicate sz 0)"] ok by auto
  then have "(\<forall>de\<in>set (key_entries dir'). readable N sz dir' de) \<and>
      0 + length (key_entries dir') \<le> N"
    by (simp add: len ksets readable_def maps)
  then obtain keys' nkeys' where
    ok': "read_entries N sz dir' dir' (replicate N (replicate sz 0)) 0 = Inr (keys', nkeys')"
    using read_entries_Inr_iff [of 0 N sz dir' dir' "replicate N (replicate sz 0)"] by auto
  note a = read_entries_slots [OF ok N] and b = read_entries_slots [OF ok' N]
  have "nkeys' = nkeys"
    using a(2) b(2) len by simp
  moreover have "keys' = keys"
    using a(1,3) b(1,3) by (intro nth_equalityI) (simp_all add: maps)
  ultimately show ?thesis using ok' by simp
qed

section \<open>What the directory loop returns\<close>

lemma key_entries_count:
  assumes dist: "distinct (map fst dir)"
    and ids: "\<forall>de\<in>set (key_entries dir). strtoul16 (fst de) < N"
  shows "length (key_entries dir) \<le> N"
proof -
  let ?names = "map fst (key_entries dir)"
  have d1: "distinct ?names"
    unfolding key_entries_def using dist by (simp add: distinct_map_filter)
  have inj: "inj_on strtoul16 (set ?names)"
  proof (rule inj_onI)
    fix a b assume "a \<in> set ?names" "b \<in> set ?names" "strtoul16 a = strtoul16 b"
    then have "is_key_name a" "is_key_name b" "strtoul16 a = strtoul16 b"
      by (auto simp: key_entries_def)
    then show "a = b" using strtoul16_key_name by metis
  qed
  have d2: "distinct (map strtoul16 ?names)"
    by (rule iffD2 [OF distinct_map]) (use d1 inj in blast)
  have "set (map strtoul16 ?names) \<subseteq> {..<N}"
    using ids by auto
  then have "card (set (map strtoul16 ?names)) \<le> card {..<N}"
    by (intro card_mono) simp_all
  then show ?thesis
    using distinct_card [OF d2] by simp
qed

lemma readable_distinct:
  assumes "distinct (map fst dir)" and "de \<in> set dir"
  shows "readable N sz dir de \<longleftrightarrow> strtoul16 (fst de) < N \<and> sz \<le> length (snd de)"
proof -
  have "map_of dir (fst de) = Some (snd de)"
    using assms by (metis map_of_is_SomeI prod.collapse)
  then show ?thesis by (simp add: readable_def)
qed

text \<open>
  Claim C10: when \<^verbatim>\<open>kmgr_get_cryptokeys\<close> returns, the array has \<open>N\<close> slots of
  \<open>sz\<close> bytes each; slot \<open>i\<close> holds the first \<open>sz\<close> bytes of the file named
  \<open>hex(i)\<close> when the directory has one, and zeroes when it has none; the count is the
  number of entries with a key name; and any other order of the same entries (of a
  directory, whose names are distinct) gives the same array and count. Identifiers are
  four hexadecimal digits, so \<open>N\<close> is at most \<open>16^4\<close>.
\<close>

theorem kmgr_get_cryptokeys_by_id:
  assumes "kmgr_get_cryptokeys N sz d p = Inr (keys, nkeys)" and "N \<le> 65536"
  shows "\<exists>dir. lookup_dir d p = Some dir \<and> length keys = N \<and>
    nkeys = length (key_entries dir) \<and>
    (\<forall>i<N. length (keys ! i) = sz \<and> keys ! i =
       (case map_of dir (CryptoKeyFilePath i) of
          None \<Rightarrow> replicate sz 0 | Some bytes \<Rightarrow> take sz bytes)) \<and>
    (\<forall>dir'. mset dir' = mset dir \<and> distinct (map fst dir) \<longrightarrow>
       kmgr_get_cryptokeys N sz (store_dir p (Some dir') d) p = Inr (keys, nkeys))"
proof -
  from assms(1) obtain dir where dir: "lookup_dir d p = Some dir"
    and ok: "read_entries N sz dir dir (replicate N (replicate sz 0)) 0 = Inr (keys, nkeys)"
    by (auto simp: kmgr_get_cryptokeys_def split: option.splits)
  note slots = read_entries_slots [OF ok assms(2)]
  have "kmgr_get_cryptokeys N sz (store_dir p (Some dir') d) p = Inr (keys, nkeys)"
    if "mset dir' = mset dir" "distinct (map fst dir)" for dir'
    using read_entries_permuted [OF ok assms(2) that]
    by (simp add: kmgr_get_cryptokeys_def lookup_store_dir)
  with dir slots show ?thesis by blast
qed

theorem kmgr_get_cryptokeys_by_id_witness:
  "kmgr_get_cryptokeys 2 2
     \<lparr>pg_cryptokeys = Some [(''.'', []), (''0001'', [5, 6, 7]), (''xyz'', [1])],
      pg_cryptokeys_tmp = None\<rparr> KMGR_DIR = Inr ([[0, 0], [5, 6]], 1) \<and>
   (2 :: nat) \<le> 65536 \<and>
   (\<exists>dir. lookup_dir
        \<lparr>pg_cryptokeys = Some [(''.'', []), (''0001'', [5, 6, 7]), (''xyz'', [1])],
         pg_cryptokeys_tmp = None\<rparr> KMGR_DIR = Some dir \<and>
      length [[0, 0], [5, 6 :: byte]] = 2 \<and> (1 :: nat) = length (key_entries dir) \<and>
      (\<forall>i<2. length ([[0, 0], [5, 6 :: byte]] ! i) = 2 \<and> [[0, 0], [5, 6]] ! i =
         (case map_of dir (CryptoKeyFilePath i) of
            None \<Rightarrow> replicate 2 0 | Some bytes \<Rightarrow> take 2 bytes)) \<and>
      (\<forall>dir'. mset dir' = mset dir \<and> distinct (map fst dir) \<longrightarrow>
         kmgr_get_cryptokeys 2 2
           (store_dir KMGR_DIR (Some dir')
              \<lparr>pg_cryptokeys = Some [(''.'', []), (''0001'', [5, 6, 7]), (''xyz'', [1])],
               pg_cryptokeys_tmp = None\<rparr>) KMGR_DIR = Inr ([[0, 0], [5, 6]], 1)))"
proof -
  have two: "replicate 2 x = [x, x]" for x :: "'a"
    by (simp add: numeral_2_eq_2)
  have run: "kmgr_get_cryptokeys 2 2
     \<lparr>pg_cryptokeys = Some [(''.'', []), (''0001'', [5, 6, 7]), (''xyz'', [1])],
      pg_cryptokeys_tmp = None\<rparr> KMGR_DIR = Inr ([[0, 0], [5, 6]], 1)"
    by (simp add: kmgr_get_cryptokeys_def is_key_name_def strlen_def strspn_def strtoul16_def
        xdigit_def read_one_keyfile_def CryptoKeyFilePath_def hex_char_def two)
  have small: "(2 :: nat) \<le> 65536" by simp
  from kmgr_get_cryptokeys_by_id [OF run small] run small show ?thesis by blast
qed


lemma kmgr_get_cryptokeys_Inl_Corrupt:
  assumes "lookup_dir d p = Some dir" and "kmgr_get_cryptokeys N sz d p = Inl e"
  shows "Corrupt e"
proof -
  have "read_entries N sz dir dir (replicate N (replicate sz 0)) 0 = Inl e"
    using assms by (simp add: kmgr_get_cryptokeys_def)
  from read_entries_error [OF this] show ?thesis by auto
qed

lemma kmgr_get_cryptokeys_Inr_iff:
  assumes "lookup_dir d p = Some dir"
  shows "(\<exists>r. kmgr_get_cryptokeys N sz d p = Inr r) \<longleftrightarrow>
    (\<forall>de\<in>set (key_entries dir). readable N sz dir de) \<and> length (key_entries dir) \<le> N"
  using read_entries_Inr_iff [of 0 N sz dir dir "replicate N (replicate sz 0)"] assms
  by (simp add: kmgr_get_cryptokeys_def)

lemma kmgr_get_cryptokeys_fails:
  assumes "lookup_dir d p = Some dir"
    and "\<not> ((\<forall>de\<in>set (key_entries dir). readable N sz dir de) \<and> length (key_entries dir) \<le> N)"
  shows "\<exists>e. kmgr_get_cryptokeys N sz d p = Inl e \<and> Corrupt e"
proof (cases "kmgr_get_cryptokeys N sz d p")
  case (Inl e)
  then show ?thesis using kmgr_get_cryptokeys_Inl_Corrupt [OF assms(1)] by simp
next
  case (Inr r)
  then show ?thesis using kmgr_get_cryptokeys_Inr_iff [OF assms(1), of N sz] assms(2) by blast
qed

text \<open>
  Claim C5: the names \<^verbatim>\<open>kmgr_get_cryptokeys\<close> considers are exactly the strings of
  four characters out of \<open>0123456789ABCDEF\<close>; the entries with any other name do not
  affect the result; an entry with a key name whose identifier is \<open>N\<close> or more makes
  the call fail with an error of the kind \<^emph>\<open>Corrupt\<close>, and so do more than \<open>N\<close>
  entries with key names; and when every entry with a key name has an identifier below
  \<open>N\<close> and a file of at least \<open>sz\<close> bytes, all of them are accepted, counted, and
  read into the slot of their identifier.
\<close>

theorem kmgr_get_cryptokeys_names:
  "(is_key_name name \<longleftrightarrow>
      length name = 4 \<and> (\<forall>c\<in>set name. c \<in> set ''0123456789ABCDEF'')) \<and>
   kmgr_get_cryptokeys N sz (store_dir p (Some (key_entries dir)) d) p =
     kmgr_get_cryptokeys N sz (store_dir p (Some dir) d) p \<and>
   (lookup_dir d1 p1 = Some dir1 \<and> de1 \<in> set (key_entries dir1) \<and> N1 \<le> strtoul16 (fst de1) \<longrightarrow>
      (\<exists>e. kmgr_get_cryptokeys N1 sz1 d1 p1 = Inl e \<and> Corrupt e)) \<and>
   (lookup_dir d2 p2 = Some dir2 \<and> N2 < length (key_entries dir2) \<longrightarrow>
      (\<exists>e. kmgr_get_cryptokeys N2 sz2 d2 p2 = Inl e \<and> Corrupt e)) \<and>
   (lookup_dir d3 p3 = Some dir3 \<and> distinct (map fst dir3) \<and>
    (\<forall>de\<in>set (key_entries dir3). strtoul16 (fst de) < N3 \<and> sz3 \<le> length (snd de)) \<longrightarrow>
      (\<exists>keys. kmgr_get_cryptokeys N3 sz3 d3 p3 = Inr (keys, length (key_entries dir3)) \<and>
         (\<forall>de\<in>set (key_entries dir3). keys ! strtoul16 (fst de) = take sz3 (snd de))))"
proof (intro conjI impI)
  show "is_key_name name \<longleftrightarrow>
      length name = 4 \<and> (\<forall>c\<in>set name. c \<in> set ''0123456789ABCDEF'')"
    by (rule is_key_name_iff)
next
  have "key_entries (key_entries dir) = key_entries dir"
    by (simp add: key_entries_def)
  then show "kmgr_get_cryptokeys N sz (store_dir p (Some (key_entries dir)) d) p =
     kmgr_get_cryptokeys N sz (store_dir p (Some dir) d) p"
    using read_entries_skip [of N sz dir dir] read_entries_dir_key_entries [of N sz dir]
    by (simp add: kmgr_get_cryptokeys_def lookup_store_dir)
next
  assume a: "lookup_dir d1 p1 = Some dir1 \<and> de1 \<in> set (key_entries dir1) \<and>
    N1 \<le> strtoul16 (fst de1)"
  then have "\<not> readable N1 sz1 dir1 de1"
    by (simp add: readable_def)
  with a show "\<exists>e. kmgr_get_cryptokeys N1 sz1 d1 p1 = Inl e \<and> Corrupt e"
    by (intro kmgr_get_cryptokeys_fails [of d1 p1 dir1]) auto
next
  assume "lookup_dir d2 p2 = Some dir2 \<and> N2 < length (key_entries dir2)"
  then show "\<exists>e. kmgr_get_cryptokeys N2 sz2 d2 p2 = Inl e \<and> Corrupt e"
    by (intro kmgr_get_cryptokeys_fails [of d2 p2 dir2]) auto
next
  assume a: "lookup_dir d3 p3 = Some dir3 \<and> distinct (map fst dir3) \<and>
    (\<forall>de\<in>set (key_entries dir3). strtoul16 (fst de) < N3 \<and> sz3 \<le> length (snd de))"
  then have dir: "lookup_dir d3 p3 = Some dir3" and dist: "distinct (map fst dir3)"
    and fine: "\<forall>de\<in>set (key_entries dir3). strtoul16 (fst de) < N3 \<and> sz3 \<le> length (snd de)"
    by simp_all
  have sub: "set (key_entries dir3) \<subseteq> set dir3"
    by (auto simp: key_entries_def)
  have all: "\<forall>de\<in>set (key_entries dir3). readable N3 sz3 dir3 de"
    using fine sub readable_distinct [OF dist] by blast
  have "length (key_entries dir3) \<le> N3"
    using key_entries_count [OF dist] fine by blast
  with all obtain keys nkeys where ok: "kmgr_get_cryptokeys N3 sz3 d3 p3 = Inr (keys, nkeys)"
    using kmgr_get_cryptokeys_Inr_iff [OF dir, of N3 sz3] by auto
  then have run: "read_entries N3 sz3 dir3 dir3 (replicate N3 (replicate sz3 0)) 0 = Inr (keys, nkeys)"
    using dir by (simp add: kmgr_get_cryptokeys_def)
  note r = read_entries_result [OF run]
  have "keys ! strtoul16 (fst de) = take sz3 (snd de)" if de: "de \<in> set (key_entries dir3)" for de
  proof -
    have "is_key_name (fst de)" "de \<in> set dir3"
      using de by (auto simp: key_entries_def)
    then have "CryptoKeyFilePath (strtoul16 (fst de)) = fst de"
      and "map_of dir3 (fst de) = Some (snd de)"
      using strtoul16_key_name dist by (simp_all add: map_of_is_SomeI)
    moreover have "strtoul16 (fst de) < N3"
      using fine de by blast
    ultimately show ?thesis
      using r de by auto
  qed
  with r ok show "\<exists>keys. kmgr_get_cryptokeys N3 sz3 d3 p3 = Inr (keys, length (key_entries dir3)) \<and>
         (\<forall>de\<in>set (key_entries dir3). keys ! strtoul16 (fst de) = take sz3 (snd de))"
    by auto
qed


theorem kmgr_get_cryptokeys_names_witness:
  "is_key_name ''00A1'' \<and>
   kmgr_get_cryptokeys 2 2
     (store_dir KMGR_DIR (Some (key_entries [(''.'', []), (''0001'', [5, 6, 7]), (''xyz'', [1])]))
        \<lparr>pg_cryptokeys = None, pg_cryptokeys_tmp = None\<rparr>) KMGR_DIR =
   kmgr_get_cryptokeys 2 2
     (store_dir KMGR_DIR (Some [(''.'', []), (''0001'', [5, 6, 7]), (''xyz'', [1])])
        \<lparr>pg_cryptokeys = None, pg_cryptokeys_tmp = None\<rparr>) KMGR_DIR \<and>
   key_entries [(''.'', []), (''0001'', [5, 6, 7 :: byte]), (''xyz'', [1])] = [(''0001'', [5, 6, 7])] \<and>
   key_entries [(''00FF'', [1, 2 :: byte])] = [(''00FF'', [1, 2])] \<and>
   2 \<le> strtoul16 ''00FF'' \<and>
   (\<exists>e. kmgr_get_cryptokeys 2 2
        \<lparr>pg_cryptokeys = Some [(''00FF'', [1, 2])], pg_cryptokeys_tmp = None\<rparr> KMGR_DIR = Inl e \<and>
      Corrupt e) \<and>
   1 < length (key_entries [(''0000'', [1, 2 :: byte]), (''0001'', [3, 4])]) \<and>
   (\<exists>e. kmgr_get_cryptokeys 1 2
        \<lparr>pg_cryptokeys = Some [(''0000'', [1, 2]), (''0001'', [3, 4])],
         pg_cryptokeys_tmp = None\<rparr> KMGR_DIR = Inl e \<and>
      Corrupt e) \<and>
   strtoul16 ''0001'' < 2 \<and>
   (\<exists>keys. kmgr_get_cryptokeys 2 2
        \<lparr>pg_cryptokeys = Some [(''.'', []), (''0001'', [5, 6, 7]), (''xyz'', [1])],
         pg_cryptokeys_tmp = None\<rparr> KMGR_DIR = Inr (keys, 1) \<and>
      keys ! 1 = [5, 6])"
proof -
  let ?dir = "[(''.'', []), (''0001'', [5, 6, 7 :: byte]), (''xyz'', [1])]"
  let ?dir1 = "[(''00FF'', [1, 2 :: byte])]"
  let ?dir2 = "[(''0000'', [1, 2 :: byte]), (''0001'', [3, 4])]"
  have name: "length ''00A1'' = 4 \<and> (\<forall>c\<in>set ''00A1''. c \<in> set ''0123456789ABCDEF'')"
    by simp
  have k: "key_entries ?dir = [(''0001'', [5, 6, 7])]"
    and k1: "key_entries ?dir1 = [(''00FF'', [1, 2])]"
    and k2: "key_entries ?dir2 = ?dir2"
    by (simp_all add: key_entries_def is_key_name_def strlen_def strspn_def)
  have v1: "strtoul16 ''00FF'' = 255" and v3: "strtoul16 ''0001'' = 1"
    by (simp_all add: strtoul16_def xdigit_def)
  note t = kmgr_get_cryptokeys_names [where name = "''00A1''" and N = 2 and sz = 2
      and p = KMGR_DIR and dir = ?dir and d = "\<lparr>pg_cryptokeys = None, pg_cryptokeys_tmp = None\<rparr>"
      and ?d1.0 = "\<lparr>pg_cryptokeys = Some ?dir1, pg_cryptokeys_tmp = None\<rparr>" and ?p1.0 = KMGR_DIR
      and ?dir1.0 = ?dir1 and ?de1.0 = "(''00FF'', [1, 2])" and ?N1.0 = 2 and ?sz1.0 = 2
      and ?d2.0 = "\<lparr>pg_cryptokeys = Some ?dir2, pg_cryptokeys_tmp = None\<rparr>" and ?p2.0 = KMGR_DIR
      and ?dir2.0 = ?dir2 and ?N2.0 = 1 and ?sz2.0 = 2
      and ?d3.0 = "\<lparr>pg_cryptokeys = Some ?dir, pg_cryptokeys_tmp = None\<rparr>" and ?p3.0 = KMGR_DIR
      and ?dir3.0 = ?dir and ?N3.0 = 2 and ?sz3.0 = 2]
  from t have a: "is_key_name ''00A1''"
    using name by blast
  from t have b: "kmgr_get_cryptokeys 2 2
     (store_dir KMGR_DIR (Some (key_entries ?dir)) \<lparr>pg_cryptokeys = None, pg_cryptokeys_tmp = None\<rparr>)
       KMGR_DIR =
     kmgr_get_cryptokeys 2 2
     (store_dir KMGR_DIR (Some ?dir) \<lparr>pg_cryptokeys = None, pg_cryptokeys_tmp = None\<rparr>) KMGR_DIR"
    by blast
  from t have c: "\<exists>e. kmgr_get_cryptokeys 2 2
        \<lparr>pg_cryptokeys = Some ?dir1, pg_cryptokeys_tmp = None\<rparr> KMGR_DIR = Inl e \<and> Corrupt e"
    by (simp add: k1 v1)
  from t have d: "\<exists>e. kmgr_get_cryptokeys 1 2
        \<lparr>pg_cryptokeys = Some ?dir2, pg_cryptokeys_tmp = None\<rparr> KMGR_DIR = Inl e \<and> Corrupt e"
    by (simp add: k2)
  from t have e: "\<exists>keys. kmgr_get_cryptokeys 2 2
        \<lparr>pg_cryptokeys = Some ?dir, pg_cryptokeys_tmp = None\<rparr> KMGR_DIR = Inr (keys, 1) \<and>
      keys ! 1 = [5, 6]"
    by (simp add: k v3)
  from a b c d e show ?thesis
    by (simp add: k k1 k2 v1 v3)
qed

section \<open>The recovery table\<close>

lemma recover_no_tmp:
  "pg_cryptokeys_tmp d = None \<Longrightarrow> recoverIncompleteRotation N sz d = (None, d)"
  by (simp add: recoverIncompleteRotation_def stat_ok_def)

lemma recover_only_tmp:
  assumes "pg_cryptokeys d = None" and "pg_cryptokeys_tmp d = Some t"
  shows "recoverIncompleteRotation N sz d =
    (None, \<lparr>pg_cryptokeys = Some t, pg_cryptokeys_tmp = None\<rparr>)"
  using assms by (simp add: recoverIncompleteRotation_def stat_ok_def rename_def)

lemma recover_both:
  assumes "pg_cryptokeys d = Some pr" and "pg_cryptokeys_tmp d = Some t"
  shows "recoverIncompleteRotation N sz d =
    (case kmgr_get_cryptokeys N sz d KMGR_TMP_DIR of
       Inl e \<Rightarrow> (Some e, d)
     | Inr (keys, nkeys_tmp) \<Rightarrow>
         if nkeys_tmp = N then (None, \<lparr>pg_cryptokeys = Some t, pg_cryptokeys_tmp = None\<rparr>)
         else (None, \<lparr>pg_cryptokeys = Some pr, pg_cryptokeys_tmp = None\<rparr>))"
  using assms
  by (simp add: recoverIncompleteRotation_def stat_ok_def rename_def rmtree_def
      split: sum.splits prod.splits)

lemma recover_both_readable:
  assumes pr: "pg_cryptokeys d = Some pr" and t: "pg_cryptokeys_tmp d = Some t"
    and dist: "distinct (map fst t)"
    and fine: "\<forall>de\<in>set (key_entries t). strtoul16 (fst de) < N \<and> sz \<le> length (snd de)"
  shows "length (key_entries t) \<le> N"
    and "recoverIncompleteRotation N sz d =
      (None, if length (key_entries t) = N
             then \<lparr>pg_cryptokeys = Some t, pg_cryptokeys_tmp = None\<rparr>
             else \<lparr>pg_cryptokeys = Some pr, pg_cryptokeys_tmp = None\<rparr>)"
proof -
  have dir: "lookup_dir d KMGR_TMP_DIR = Some t"
    using t by simp
  have sub: "set (key_entries t) \<subseteq> set t"
    by (auto simp: key_entries_def)
  have all: "\<forall>de\<in>set (key_entries t). readable N sz t de"
    using fine sub readable_distinct [OF dist] by blast
  show le: "length (key_entries t) \<le> N"
    using key_entries_count [OF dist] fine by blast
  with all obtain keys nkeys where
    ok: "kmgr_get_cryptokeys N sz d KMGR_TMP_DIR = Inr (keys, nkeys)"
    using kmgr_get_cryptokeys_Inr_iff [OF dir, of N sz] by auto
  then have "read_entries N sz t t (replicate N (replicate sz 0)) 0 = Inr (keys, nkeys)"
    using dir by (simp add: kmgr_get_cryptokeys_def)
  from read_entries_result [OF this] have "nkeys = length (key_entries t)"
    by simp
  then show "recoverIncompleteRotation N sz d =
      (None, if length (key_entries t) = N
             then \<lparr>pg_cryptokeys = Some t, pg_cryptokeys_tmp = None\<rparr>
             else \<lparr>pg_cryptokeys = Some pr, pg_cryptokeys_tmp = None\<rparr>)"
    using recover_both [OF pr t, of N sz] ok by simp
qed

lemma recover_both_unreadable:
  assumes pr: "pg_cryptokeys d = Some pr" and t: "pg_cryptokeys_tmp d = Some t"
    and dist: "distinct (map fst t)"
    and de: "de \<in> set (key_entries t)"
    and bad: "N \<le> strtoul16 (fst de) \<or> length (snd de) < sz"
  shows "\<exists>e. Corrupt e \<and> recoverIncompleteRotation N sz d = (Some e, d)"
proof -
  have dir: "lookup_dir d KMGR_TMP_DIR = Some t"
    using t by simp
  have "de \<in> set t"
    using de by (auto simp: key_entries_def)
  then have "\<not> readable N sz t de"
    using readable_distinct [OF dist, of de N sz] bad by auto
  with de have "\<not> ((\<forall>de\<in>set (key_entries t). readable N sz t de) \<and> length (key_entries t) \<le> N)"
    by blast
  from kmgr_get_cryptokeys_fails [OF dir this] obtain e
    where "kmgr_get_cryptokeys N sz d KMGR_TMP_DIR = Inl e" "Corrupt e"
    by blast
  then show ?thesis
    using recover_both [OF pr t, of N sz] by simp
qed

text \<open>
  Claim C2, as amended: without a temporary directory the recovery does nothing; with
  the temporary directory alone it renames it to the primary one; with both, it loads
  the temporary directory and, when every entry with a key name has an identifier below
  \<open>N\<close> and at least \<open>sz\<close> bytes, it removes the primary directory and renames
  the temporary one if there are \<open>N\<close> such entries, and removes the temporary
  directory and keeps the primary one if there are fewer; when an entry with a key name
  has an identifier that is too large or a file that is too short, the load raises its
  error, the recovery ends with it, and both directories stay as they are.
\<close>

theorem recoverIncompleteRotation_table:
  "(pg_cryptokeys_tmp d1 = None \<longrightarrow> recoverIncompleteRotation N sz d1 = (None, d1)) \<and>
   (pg_cryptokeys d2 = None \<and> pg_cryptokeys_tmp d2 = Some t2 \<longrightarrow>
      recoverIncompleteRotation N sz d2 =
        (None, \<lparr>pg_cryptokeys = Some t2, pg_cryptokeys_tmp = None\<rparr>)) \<and>
   (pg_cryptokeys d3 = Some pr3 \<and> pg_cryptokeys_tmp d3 = Some t3 \<and> distinct (map fst t3) \<and>
    (\<forall>de\<in>set (key_entries t3). strtoul16 (fst de) < N \<and> sz \<le> length (snd de)) \<longrightarrow>
      length (key_entries t3) \<le> N \<and>
      recoverIncompleteRotation N sz d3 =
        (None, if length (key_entries t3) = N
               then \<lparr>pg_cryptokeys = Some t3, pg_cryptokeys_tmp = None\<rparr>
               else \<lparr>pg_cryptokeys = Some pr3, pg_cryptokeys_tmp = None\<rparr>)) \<and>
   (pg_cryptokeys d4 = Some pr4 \<and> pg_cryptokeys_tmp d4 = Some t4 \<and> distinct (map fst t4) \<and>
    de4 \<in> set (key_entries t4) \<and> (N \<le> strtoul16 (fst de4) \<or> length (snd de4) < sz) \<longrightarrow>
      (\<exists>e. Corrupt e \<and> recoverIncompleteRotation N sz d4 = (Some e, d4)))"
  using recover_no_tmp [of d1 N sz] recover_only_tmp [of d2 t2 N sz]
    recover_both_readable [of d3 pr3 t3 N sz] recover_both_unreadable [of d4 pr4 t4 de4 N sz]
  by blast

theorem recoverIncompleteRotation_table_witness:
  "recoverIncompleteRotation 2 2 \<lparr>pg_cryptokeys = Some [(''0000'', [1, 2])], pg_cryptokeys_tmp = None\<rparr> =
     (None, \<lparr>pg_cryptokeys = Some [(''0000'', [1, 2])], pg_cryptokeys_tmp = None\<rparr>) \<and>
   recoverIncompleteRotation 2 2 \<lparr>pg_cryptokeys = None, pg_cryptokeys_tmp = Some [(''0000'', [3, 4])]\<rparr> =
     (None, \<lparr>pg_cryptokeys = Some [(''0000'', [3, 4])], pg_cryptokeys_tmp = None\<rparr>) \<and>
   key_entries [(''0000'', [3, 4 :: byte]), (''0001'', [5, 6])] = [(''0000'', [3, 4]), (''0001'', [5, 6])] \<and>
   strtoul16 ''0000'' < 2 \<and> strtoul16 ''0001'' < 2 \<and>
   recoverIncompleteRotation 2 2
     \<lparr>pg_cryptokeys = Some [(''0000'', [1, 2]), (''0001'', [7, 8])],
      pg_cryptokeys_tmp = Some [(''0000'', [3, 4]), (''0001'', [5, 6])]\<rparr> =
     (None, \<lparr>pg_cryptokeys = Some [(''0000'', [3, 4]), (''0001'', [5, 6])], pg_cryptokeys_tmp = None\<rparr>) \<and>
   key_entries [(''0000'', [3, 4 :: byte]), (''junk'', [])] = [(''0000'', [3, 4])] \<and>
   recoverIncompleteRotation 2 2
     \<lparr>pg_cryptokeys = Some [(''0000'', [1, 2]), (''0001'', [7, 8])],
      pg_cryptokeys_tmp = Some [(''0000'', [3, 4]), (''junk'', [])]\<rparr> =
     (None, \<lparr>pg_cryptokeys = Some [(''0000'', [1, 2]), (''0001'', [7, 8])], pg_cryptokeys_tmp = None\<rparr>) \<and>
   key_entries [(''0000'', [3, 4 :: byte]), (''0001'', [5])] = [(''0000'', [3, 4]), (''0001'', [5])] \<and>
   (\<exists>e. Corrupt e \<and>
      recoverIncompleteRotation 2 2
        \<lparr>pg_cryptokeys = Some [(''0000'', [1, 2]), (''0001'', [7, 8])],
         pg_cryptokeys_tmp = Some [(''0000'', [3, 4]), (''0001'', [5])]\<rparr> =
        (Some e, \<lparr>pg_cryptokeys = Some [(''0000'', [1, 2]), (''0001'', [7, 8])],
                  pg_cryptokeys_tmp = Some [(''0000'', [3, 4]), (''0001'', [5])]\<rparr>))"
proof -
  let ?pr = "[(''0000'', [1, 2 :: byte]), (''0001'', [7, 8])]"
  let ?full = "[(''0000'', [3, 4 :: byte]), (''0001'', [5, 6])]"
  let ?part = "[(''0000'', [3, 4 :: byte]), (''junk'', [])]"
  let ?short = "[(''0000'', [3, 4 :: byte]), (''0001'', [5])]"
  have k: "key_entries ?full = ?full" "key_entries ?part = [(''0000'', [3, 4])]"
    "key_entries ?short = ?short"
    by (simp_all add: key_entries_def is_key_name_def strlen_def strspn_def)
  have v: "strtoul16 ''0000'' = 0" "strtoul16 ''0001'' = 1"
    by (simp_all add: strtoul16_def xdigit_def)
  note t1 = recoverIncompleteRotation_table [where N = 2 and sz = 2
      and ?d1.0 = "\<lparr>pg_cryptokeys = Some [(''0000'', [1, 2])], pg_cryptokeys_tmp = None\<rparr>"
      and ?d2.0 = "\<lparr>pg_cryptokeys = None, pg_cryptokeys_tmp = Some [(''0000'', [3, 4])]\<rparr>"
      and ?t2.0 = "[(''0000'', [3, 4])]"
      and ?d3.0 = "\<lparr>pg_cryptokeys = Some ?pr, pg_cryptokeys_tmp = Some ?full\<rparr>"
      and ?pr3.0 = ?pr and ?t3.0 = ?full
      and ?d4.0 = "\<lparr>pg_cryptokeys = Some ?pr, pg_cryptokeys_tmp = Some ?short\<rparr>"
      and ?pr4.0 = ?pr and ?t4.0 = ?short and ?de4.0 = "(''0001'', [5])"]
  note t2 = recoverIncompleteRotation_table [where N = 2 and sz = 2
      and ?d3.0 = "\<lparr>pg_cryptokeys = Some ?pr, pg_cryptokeys_tmp = Some ?part\<rparr>"
      and ?pr3.0 = ?pr and ?t3.0 = ?part]
  from t1 have a: "recoverIncompleteRotation 2 2
      \<lparr>pg_cryptokeys = Some [(''0000'', [1, 2])], pg_cryptokeys_tmp = None\<rparr> =
     (None, \<lparr>pg_cryptokeys = Some [(''0000'', [1, 2])], pg_cryptokeys_tmp = None\<rparr>)"
    by simp
  from t1 have b: "recoverIncompleteRotation 2 2
      \<lparr>pg_cryptokeys = None, pg_cryptokeys_tmp = Some [(''0000'', [3, 4])]\<rparr> =
     (None, \<lparr>pg_cryptokeys = Some [(''0000'', [3, 4])], pg_cryptokeys_tmp = None\<rparr>)"
    by simp
  from t1 have c: "recoverIncompleteRotation 2 2
      \<lparr>pg_cryptokeys = Some ?pr, pg_cryptokeys_tmp = Some ?full\<rparr> =
     (None, \<lparr>pg_cryptokeys = Some ?full, pg_cryptokeys_tmp = None\<rparr>)"
    by (simp add: k v)
  from t2 have d: "recoverIncompleteRotation 2 2
      \<lparr>pg_cryptokeys = Some ?pr, pg_cryptokeys_tmp = Some ?part\<rparr> =
     (None, \<lparr>pg_cryptokeys = Some ?pr, pg_cryptokeys_tmp = None\<rparr>)"
    by (simp add: k v)
  from t1 have e: "\<exists>e. Corrupt e \<and>
      recoverIncompleteRotation 2 2 \<lparr>pg_cryptokeys = Some ?pr, pg_cryptokeys_tmp = Some ?short\<rparr> =
        (Some e, \<lparr>pg_cryptokeys = Some ?pr, pg_cryptokeys_tmp = Some ?short\<rparr>)"
    by (simp add: k v)
  from a b c d e show ?thesis
    by (simp add: k v)
qed

text \<open>
  Claim C2 as stated has the recovery remove the temporary directory whenever it holds
  fewer than \<open>N\<close> valid files. With one key and a temporary directory whose file
  \<open>0000\<close> is empty, there is no valid file, and the recovery raises the error of the
  short read and removes nothing.
\<close>

theorem recoverIncompleteRotation_short_file:
  "recoverIncompleteRotation 1 2
     \<lparr>pg_cryptokeys = Some [(''0000'', [1, 2])], pg_cryptokeys_tmp = Some [(''0000'', [])]\<rparr> =
   (Some (ShortRead 0),
    \<lparr>pg_cryptokeys = Some [(''0000'', [1, 2])], pg_cryptokeys_tmp = Some [(''0000'', [])]\<rparr>)"
  by (simp add: recoverIncompleteRotation_def stat_ok_def kmgr_get_cryptokeys_def
      is_key_name_def strlen_def strspn_def strtoul16_def xdigit_def read_one_keyfile_def
      CryptoKeyFilePath_def hex_char_def)

text \<open>
  Claim C9: the disk after two runs of the recovery is the disk after one; after a run
  without an error the temporary directory is absent and a second run returns without
  an error and changes nothing; and a run without a temporary directory changes
  nothing.
\<close>

theorem recoverIncompleteRotation_idempotent:
  "snd (recoverIncompleteRotation N sz (snd (recoverIncompleteRotation N sz d))) =
     snd (recoverIncompleteRotation N sz d) \<and>
   (fst (recoverIncompleteRotation N sz d) = None \<longrightarrow>
      pg_cryptokeys_tmp (snd (recoverIncompleteRotation N sz d)) = None \<and>
      recoverIncompleteRotation N sz (snd (recoverIncompleteRotation N sz d)) =
        (None, snd (recoverIncompleteRotation N sz d))) \<and>
   (pg_cryptokeys_tmp d' = None \<longrightarrow> recoverIncompleteRotation N sz d' = (None, d'))"
proof (cases "pg_cryptokeys_tmp d")
  case None
  then show ?thesis by (simp add: recover_no_tmp)
next
  case (Some t)
  note t = this
  show ?thesis
  proof (cases "pg_cryptokeys d")
    case None
    then show ?thesis using t by (simp add: recover_only_tmp recover_no_tmp)
  next
    case (Some pr)
    show ?thesis
      using recover_both [OF Some t, of N sz]
      by (auto simp: recover_no_tmp split: sum.splits if_splits)
  qed
qed

theorem recoverIncompleteRotation_idempotent_witness:
  "recoverIncompleteRotation 1 2
     \<lparr>pg_cryptokeys = Some [(''0000'', [1, 2])], pg_cryptokeys_tmp = Some [(''0000'', [3, 4])]\<rparr> =
     (None, \<lparr>pg_cryptokeys = Some [(''0000'', [3, 4])], pg_cryptokeys_tmp = None\<rparr>) \<and>
   recoverIncompleteRotation 1 2
     \<lparr>pg_cryptokeys = Some [(''0000'', [3, 4])], pg_cryptokeys_tmp = None\<rparr> =
     (None, \<lparr>pg_cryptokeys = Some [(''0000'', [3, 4])], pg_cryptokeys_tmp = None\<rparr>)"
proof -
  let ?d = "\<lparr>pg_cryptokeys = Some [(''0000'', [1, 2 :: byte])],
    pg_cryptokeys_tmp = Some [(''0000'', [3, 4 :: byte])]\<rparr>"
  have run: "recoverIncompleteRotation 1 2 ?d =
     (None, \<lparr>pg_cryptokeys = Some [(''0000'', [3, 4])], pg_cryptokeys_tmp = None\<rparr>)"
    by (simp add: recoverIncompleteRotation_def stat_ok_def kmgr_get_cryptokeys_def
      is_key_name_def strlen_def strspn_def strtoul16_def xdigit_def read_one_keyfile_def
      CryptoKeyFilePath_def hex_char_def rmtree_def rename_def)
  from recoverIncompleteRotation_idempotent [of 1 2 ?d] run show ?thesis
    by simp
qed

section \<open>Startup\<close>

text \<open>
  Claim C7: when neither directory exists, \<^verbatim>\<open>InitializeKmgr\<close> ends with the error
  of the directory that cannot be opened (the \<^emph>\<open>MissingKeystore\<close> of the
  specification), whatever the passphrase and the AEAD are, and leaves the disk and
  the shared keys as they were: the recovery returns at once, and
  \<^verbatim>\<open>kmgr_get_cryptokeys\<close> raises before the passphrase is asked for or verified.
\<close>

theorem InitializeKmgr_missing_keystore:
  assumes "pg_cryptokeys (data_dir s) = None" and "pg_cryptokeys_tmp (data_dir s) = None"
  shows "InitializeKmgr True N sz A passphrase s = (Some CouldNotOpenDirectory, s)"
  using assms by (simp add: InitializeKmgr_def recover_no_tmp kmgr_get_cryptokeys_def)

theorem InitializeKmgr_missing_keystore_witness:
  "pg_cryptokeys (data_dir \<lparr>data_dir = \<lparr>pg_cryptokeys = None, pg_cryptokeys_tmp = None\<rparr>,
      intlKeys = [[0, 0]]\<rparr>) = None \<and>
   pg_cryptokeys_tmp (data_dir \<lparr>data_dir = \<lparr>pg_cryptokeys = None, pg_cryptokeys_tmp = None\<rparr>,
      intlKeys = [[0, 0]]\<rparr>) = None \<and>
   InitializeKmgr True 1 2 tag_aead ''secret''
     \<lparr>data_dir = \<lparr>pg_cryptokeys = None, pg_cryptokeys_tmp = None\<rparr>, intlKeys = [[0, 0]]\<rparr> =
   (Some CouldNotOpenDirectory,
    \<lparr>data_dir = \<lparr>pg_cryptokeys = None, pg_cryptokeys_tmp = None\<rparr>, intlKeys = [[0, 0]]\<rparr>)"
  using InitializeKmgr_missing_keystore
    [of "\<lparr>data_dir = \<lparr>pg_cryptokeys = None, pg_cryptokeys_tmp = None\<rparr>, intlKeys = [[0, 0]]\<rparr>"
      1 2 tag_aead "''secret''"]
  by simp

lemma unwrap_keys_upt:
  assumes "unwrap_keys A ctx keys_in [a..<b] out = (ok, out')"
  shows "length out' = length out \<and> (\<forall>i<a. out' ! i = out ! i) \<and>
    (ok \<longrightarrow>
       (\<forall>i. a \<le> i \<and> i < b \<and> i < length out \<longrightarrow>
          fst (kmgr_unwrap_key A ctx (keys_in ! i) (out ! i)) \<and>
          out' ! i = snd (kmgr_unwrap_key A ctx (keys_in ! i) (out ! i))) \<and>
       (\<forall>i\<ge>b. out' ! i = out ! i)) \<and>
    (\<not> ok \<longrightarrow>
       (\<exists>j. a \<le> j \<and> j < b \<and> \<not> fst (kmgr_unwrap_key A ctx (keys_in ! j) (out ! j)) \<and>
          (j < length out \<longrightarrow> out' ! j = snd (kmgr_unwrap_key A ctx (keys_in ! j) (out ! j))) \<and>
          (\<forall>i. a \<le> i \<and> i < j \<and> i < length out \<longrightarrow>
             fst (kmgr_unwrap_key A ctx (keys_in ! i) (out ! i)) \<and>
             out' ! i = snd (kmgr_unwrap_key A ctx (keys_in ! i) (out ! i))) \<and>
          (\<forall>i>j. out' ! i = out ! i)))"
  using assms
proof (induction "b - a" arbitrary: a out)
  case 0
  then show ?case by auto
next
  case (Suc n)
  then have ab: "a < b" and n: "n = b - Suc a"
    by simp_all
  have upt: "[a..<b] = a # [Suc a..<b]"
    using ab by (simp add: upt_conv_Cons)
  obtain ok1 k where u: "kmgr_unwrap_key A ctx (keys_in ! a) (out ! a) = (ok1, k)"
    by (cases "kmgr_unwrap_key A ctx (keys_in ! a) (out ! a)")
  show ?case
  proof (cases ok1)
    case False
    then have "ok = False" and out': "out' = out[a := k]"
      using Suc.prems u by (simp_all add: upt)
    then show ?thesis
      using u False ab by (auto intro!: exI [of _ a])
  next
    case True
    then have rest: "unwrap_keys A ctx keys_in [Suc a..<b] (out[a := k]) = (ok, out')"
      using Suc.prems u by (simp add: upt)
    note ih = Suc.hyps(1) [OF n rest]
    have same: "kmgr_unwrap_key A ctx (keys_in ! i) (out[a := k] ! i) =
        kmgr_unwrap_key A ctx (keys_in ! i) (out ! i)" if "a < i" for i
      using that by simp
    have at_a: "a < length out \<Longrightarrow> out' ! a = k"
      using ih by simp
    have len: "length out' = length out" and below: "\<forall>i<a. out' ! i = out ! i"
      using ih by simp_all
    show ?thesis
    proof (cases ok)
      case True
      with ih have
        r: "\<forall>i. Suc a \<le> i \<and> i < b \<and> i < length out \<longrightarrow>
          fst (kmgr_unwrap_key A ctx (keys_in ! i) (out ! i)) \<and>
          out' ! i = snd (kmgr_unwrap_key A ctx (keys_in ! i) (out ! i))"
        and ab': "\<forall>i\<ge>b. out' ! i = out ! i"
        using ab by (simp_all add: same)
      have "fst (kmgr_unwrap_key A ctx (keys_in ! i) (out ! i)) \<and>
          out' ! i = snd (kmgr_unwrap_key A ctx (keys_in ! i) (out ! i))"
        if "a \<le> i" "i < b" "i < length out" for i
      proof (cases "i = a")
        case True
        then show ?thesis using u \<open>ok1\<close> at_a that by simp
      next
        case False
        then show ?thesis using r that by simp
      qed
      with len below ab' True show ?thesis by blast
    next
      case False
      with ih obtain j where j: "Suc a \<le> j" "j < b"
        "\<not> fst (kmgr_unwrap_key A ctx (keys_in ! j) (out ! j))"
        "j < length out \<longrightarrow> out' ! j = snd (kmgr_unwrap_key A ctx (keys_in ! j) (out ! j))"
        and r: "\<forall>i. Suc a \<le> i \<and> i < j \<and> i < length out \<longrightarrow>
          fst (kmgr_unwrap_key A ctx (keys_in ! i) (out ! i)) \<and>
          out' ! i = snd (kmgr_unwrap_key A ctx (keys_in ! i) (out ! i))"
        and above: "\<forall>i>j. out' ! i = out ! i"
        by (auto simp: same)
      have "fst (kmgr_unwrap_key A ctx (keys_in ! i) (out ! i)) \<and>
          out' ! i = snd (kmgr_unwrap_key A ctx (keys_in ! i) (out ! i))"
        if "a \<le> i" "i < j" "i < length out" for i
      proof (cases "i = a")
        case True
        then show ?thesis using u \<open>ok1\<close> at_a that by simp
      next
        case False
        then show ?thesis using r that by simp
      qed
      with len below above j False show ?thesis
        by (intro conjI impI; (simp; fail)?) (auto intro!: exI [of _ j])
    qed
  qed
qed


lemma recover_error:
  assumes "recoverIncompleteRotation N sz d = (Some e, d')"
  shows "Corrupt e \<and> d' = d"
proof (cases "pg_cryptokeys_tmp d")
  case None
  then show ?thesis using assms by (simp add: recover_no_tmp)
next
  case (Some t)
  note t = this
  show ?thesis
  proof (cases "pg_cryptokeys d")
    case None
    then show ?thesis using assms t by (simp add: recover_only_tmp)
  next
    case (Some pr)
    have dir: "lookup_dir d KMGR_TMP_DIR = Some t"
      using t by simp
    show ?thesis
      using recover_both [OF Some t, of N sz] assms kmgr_get_cryptokeys_Inl_Corrupt [OF dir]
      by (auto split: sum.splits if_splits)
  qed
qed

lemma kmgr_get_cryptokeys_error:
  assumes "kmgr_get_cryptokeys N sz d p = Inl e"
  shows "e = CouldNotOpenDirectory \<or> Corrupt e"
proof (cases "lookup_dir d p")
  case None
  then show ?thesis using assms by (simp add: kmgr_get_cryptokeys_def)
next
  case (Some dir)
  from kmgr_get_cryptokeys_Inl_Corrupt [OF this assms] show ?thesis ..
qed

lemma InitializeKmgr_cases:
  assumes "InitializeKmgr True N sz A passphrase s = (r, s')"
  shows "(r \<noteq> None \<and> r \<noteq> Some PassphraseMismatch \<and> intlKeys s' = intlKeys s) \<or>
    (\<exists>keys_wrap ok.
       kmgr_get_cryptokeys N sz (data_dir s') KMGR_DIR = Inr (keys_wrap, N) \<and>
       kmgr_verify_passphrase A passphrase keys_wrap (intlKeys s) N = Inr (ok, intlKeys s') \<and>
       r = (if ok then None else Some PassphraseMismatch))"
proof (cases "recoverIncompleteRotation N sz (data_dir s)")
  case (Pair e d)
  show ?thesis
  proof (cases e)
    case (Some x)
    then have "Corrupt x"
      using recover_error Pair by blast
    then have "x \<noteq> PassphraseMismatch"
      by auto
    then show ?thesis
      using assms Pair Some by (auto simp: InitializeKmgr_def)
  next
    case None
    note rec = Pair [unfolded None]
    show ?thesis
    proof (cases "kmgr_get_cryptokeys N sz d KMGR_DIR")
      case (Inl x)
      then have "x \<noteq> PassphraseMismatch"
        using kmgr_get_cryptokeys_error by fastforce
      then show ?thesis
        using assms rec Inl by (auto simp: InitializeKmgr_def)
    next
      case (Inr kn)
      obtain keys_wrap nkeys where kn: "kn = (keys_wrap, nkeys)"
        by (cases kn)
      show ?thesis
      proof (cases "nkeys = N")
        case False
        then show ?thesis
          using assms rec Inr kn by (auto simp: InitializeKmgr_def)
      next
        case True
        show ?thesis
        proof (cases "kmgr_verify_passphrase A passphrase keys_wrap (intlKeys s) N")
          case (Inl x)
          then have "x = BufferOverrun"
            by (auto simp: kmgr_verify_passphrase_def split: if_splits)
          then show ?thesis
            using assms rec Inr kn True Inl by (auto simp: InitializeKmgr_def)
        next
          case (Inr v)
          obtain ok keys_out where v: "v = (ok, keys_out)"
            by (cases v)
          have "s' = s\<lparr>data_dir := d, intlKeys := keys_out\<rparr>"
            and "r = (if ok then None else Some PassphraseMismatch)"
            using assms rec \<open>kmgr_get_cryptokeys N sz d KMGR_DIR = Inr kn\<close> kn True Inr v
            by (auto simp: InitializeKmgr_def split: if_splits)
          then show ?thesis
            using \<open>kmgr_get_cryptokeys N sz d KMGR_DIR = Inr kn\<close> kn True Inr v
            by auto
        qed
      qed
    qed
  qed
qed

text \<open>
  Claim C3, as amended: \<^verbatim>\<open>InitializeKmgr\<close> hands the shared array itself to
  \<^verbatim>\<open>kmgr_verify_passphrase\<close>, which unwraps key after key into it. When the
  startup ends with the passphrase mismatch, there is a first key \<open>j\<close> that failed to
  unwrap: the slots below \<open>j\<close> hold the keys unwrapped before it, slot \<open>j\<close> holds
  what the failed call left there, and the slots above \<open>j\<close> are unchanged. When the
  startup ends without an error, all \<open>N\<close> keys unwrapped and every slot holds its
  key. With any other error the shared array is unchanged.
\<close>

theorem InitializeKmgr_cache:
  assumes run: "InitializeKmgr True N sz A passphrase s = (r, s')"
    and len: "length (intlKeys s) = N"
  shows
    "(r = Some PassphraseMismatch \<longrightarrow>
        (\<exists>keys_wrap j. kmgr_get_cryptokeys N sz (data_dir s') KMGR_DIR = Inr (keys_wrap, N) \<and>
           j < N \<and>
           \<not> fst (kmgr_unwrap_key A (create_ctx A passphrase) (keys_wrap ! j) (intlKeys s ! j)) \<and>
           intlKeys s' ! j =
             snd (kmgr_unwrap_key A (create_ctx A passphrase) (keys_wrap ! j) (intlKeys s ! j)) \<and>
           (\<forall>i<j. fst (kmgr_unwrap_key A (create_ctx A passphrase) (keys_wrap ! i) (intlKeys s ! i)) \<and>
              intlKeys s' ! i =
                snd (kmgr_unwrap_key A (create_ctx A passphrase) (keys_wrap ! i) (intlKeys s ! i))) \<and>
           (\<forall>i>j. intlKeys s' ! i = intlKeys s ! i))) \<and>
     (r = None \<longrightarrow>
        (\<exists>keys_wrap. kmgr_get_cryptokeys N sz (data_dir s') KMGR_DIR = Inr (keys_wrap, N) \<and>
           (\<forall>i<N. fst (kmgr_unwrap_key A (create_ctx A passphrase) (keys_wrap ! i) (intlKeys s ! i)) \<and>
              intlKeys s' ! i =
                snd (kmgr_unwrap_key A (create_ctx A passphrase) (keys_wrap ! i) (intlKeys s ! i))))) \<and>
     (r \<noteq> None \<and> r \<noteq> Some PassphraseMismatch \<longrightarrow> intlKeys s' = intlKeys s) \<and>
     length (intlKeys s') = N"
proof -
  from InitializeKmgr_cases [OF run] show ?thesis
  proof (elim disjE exE conjE)
    assume "r \<noteq> None" "r \<noteq> Some PassphraseMismatch" "intlKeys s' = intlKeys s"
    then show ?thesis using len by auto
  next
    fix keys_wrap ok
    assume get: "kmgr_get_cryptokeys N sz (data_dir s') KMGR_DIR = Inr (keys_wrap, N)"
      and ver: "kmgr_verify_passphrase A passphrase keys_wrap (intlKeys s) N = Inr (ok, intlKeys s')"
      and r: "r = (if ok then None else Some PassphraseMismatch)"
    from ver have loop: "unwrap_keys A (create_ctx A passphrase) keys_wrap [0..<N] (intlKeys s) =
        (ok, intlKeys s')"
      by (simp add: kmgr_verify_passphrase_def split: if_splits)
    note u = unwrap_keys_upt [OF loop]
    show ?thesis
    proof (cases ok)
      case True
      then show ?thesis
        using u r get len by auto
    next
      case False
      with u obtain j where "j < N"
        "\<not> fst (kmgr_unwrap_key A (create_ctx A passphrase) (keys_wrap ! j) (intlKeys s ! j))"
        "intlKeys s' ! j =
          snd (kmgr_unwrap_key A (create_ctx A passphrase) (keys_wrap ! j) (intlKeys s ! j))"
        "\<forall>i<j. fst (kmgr_unwrap_key A (create_ctx A passphrase) (keys_wrap ! i) (intlKeys s ! i)) \<and>
          intlKeys s' ! i =
            snd (kmgr_unwrap_key A (create_ctx A passphrase) (keys_wrap ! i) (intlKeys s ! i))"
        "\<forall>i>j. intlKeys s' ! i = intlKeys s ! i"
        using len by auto
      then show ?thesis
        using r get False u len by auto
    qed
  qed
qed


lemmas run_defs =
  InitializeKmgr_def recoverIncompleteRotation_def stat_ok_def rename_def rmtree_def
  kmgr_get_cryptokeys_def is_key_name_def strlen_def strspn_def strtoul16_def xdigit_def
  read_one_keyfile_def CryptoKeyFilePath_def hex_char_def kmgr_verify_passphrase_def
  kmgr_unwrap_key_def create_ctx_def kmgr_derive_keys_def tag_aead_def

lemma replicate_two: "replicate 2 x = [x, x]"
  by (simp add: numeral_2_eq_2)

lemma upt_two: "[0..<2] = [0, Suc 0]"
  by (simp add: numeral_2_eq_2)

lemma startup_second_key_fails:
  "InitializeKmgr True 2 2 tag_aead ''pw''
     \<lparr>data_dir = \<lparr>pg_cryptokeys = Some [(''0000'', [2, 7]), (''0001'', [3, 8])],
                  pg_cryptokeys_tmp = None\<rparr>,
      intlKeys = [[0, 0], [0, 0]]\<rparr> =
   (Some PassphraseMismatch,
    \<lparr>data_dir = \<lparr>pg_cryptokeys = Some [(''0000'', [2, 7]), (''0001'', [3, 8])],
                 pg_cryptokeys_tmp = None\<rparr>,
     intlKeys = [[7, 0], [0, 0]]\<rparr>)"
  by (simp add: run_defs replicate_two upt_two)

lemma startup_both_keys:
  "InitializeKmgr True 2 2 tag_aead ''pw''
     \<lparr>data_dir = \<lparr>pg_cryptokeys = Some [(''0000'', [2, 7]), (''0001'', [2, 8])],
                  pg_cryptokeys_tmp = None\<rparr>,
      intlKeys = [[0, 0], [0, 0]]\<rparr> =
   (None,
    \<lparr>data_dir = \<lparr>pg_cryptokeys = Some [(''0000'', [2, 7]), (''0001'', [2, 8])],
                 pg_cryptokeys_tmp = None\<rparr>,
     intlKeys = [[7, 0], [8, 0]]\<rparr>)"
  by (simp add: run_defs replicate_two upt_two)

theorem InitializeKmgr_cache_witness:
  "InitializeKmgr True 2 2 tag_aead ''pw''
     \<lparr>data_dir = \<lparr>pg_cryptokeys = Some [(''0000'', [2, 7]), (''0001'', [3, 8])],
                  pg_cryptokeys_tmp = None\<rparr>,
      intlKeys = [[0, 0], [0, 0]]\<rparr> =
   (Some PassphraseMismatch,
    \<lparr>data_dir = \<lparr>pg_cryptokeys = Some [(''0000'', [2, 7]), (''0001'', [3, 8])],
                 pg_cryptokeys_tmp = None\<rparr>,
     intlKeys = [[7, 0], [0, 0]]\<rparr>) \<and>
   (\<exists>keys_wrap j. j < 2 \<and>
      \<not> fst (kmgr_unwrap_key tag_aead (create_ctx tag_aead ''pw'') (keys_wrap ! j)
              ([[0, 0], [0, 0]] ! j)) \<and>
      (\<forall>i<j. fst (kmgr_unwrap_key tag_aead (create_ctx tag_aead ''pw'') (keys_wrap ! i)
                  ([[0, 0], [0, 0]] ! i)) \<and>
         [[7, 0], [0, 0]] ! i =
           snd (kmgr_unwrap_key tag_aead (create_ctx tag_aead ''pw'') (keys_wrap ! i)
                  ([[0, 0], [0, 0]] ! i)))) \<and>
   InitializeKmgr True 2 2 tag_aead ''pw''
     \<lparr>data_dir = \<lparr>pg_cryptokeys = Some [(''0000'', [2, 7]), (''0001'', [2, 8])],
                  pg_cryptokeys_tmp = None\<rparr>,
      intlKeys = [[0, 0], [0, 0]]\<rparr> =
   (None,
    \<lparr>data_dir = \<lparr>pg_cryptokeys = Some [(''0000'', [2, 7]), (''0001'', [2, 8])],
                 pg_cryptokeys_tmp = None\<rparr>,
     intlKeys = [[7, 0], [8, 0]]\<rparr>) \<and>
   (\<exists>keys_wrap.
      (\<forall>i<2. fst (kmgr_unwrap_key tag_aead (create_ctx tag_aead ''pw'') (keys_wrap ! i)
                  ([[0, 0], [0, 0]] ! i)) \<and>
         [[7, 0], [8, 0]] ! i =
           snd (kmgr_unwrap_key tag_aead (create_ctx tag_aead ''pw'') (keys_wrap ! i)
                  ([[0, 0], [0, 0]] ! i))))"
proof -
  have len: "length (intlKeys \<lparr>data_dir = d, intlKeys = [[0, 0], [0, 0]]\<rparr>) = 2" for d
    by simp
  from InitializeKmgr_cache [OF startup_second_key_fails len]
  have a: "\<exists>keys_wrap j. j < 2 \<and>
      \<not> fst (kmgr_unwrap_key tag_aead (create_ctx tag_aead ''pw'') (keys_wrap ! j)
              ([[0, 0], [0, 0]] ! j)) \<and>
      (\<forall>i<j. fst (kmgr_unwrap_key tag_aead (create_ctx tag_aead ''pw'') (keys_wrap ! i)
                  ([[0, 0], [0, 0]] ! i)) \<and>
         [[7, 0], [0, 0]] ! i =
           snd (kmgr_unwrap_key tag_aead (create_ctx tag_aead ''pw'') (keys_wrap ! i)
                  ([[0, 0], [0, 0]] ! i)))"
    by simp blast
  from InitializeKmgr_cache [OF startup_both_keys len]
  have b: "\<exists>keys_wrap.
      (\<forall>i<2. fst (kmgr_unwrap_key tag_aead (create_ctx tag_aead ''pw'') (keys_wrap ! i)
                  ([[0, 0], [0, 0]] ! i)) \<and>
         [[7, 0], [8, 0]] ! i =
           snd (kmgr_unwrap_key tag_aead (create_ctx tag_aead ''pw'') (keys_wrap ! i)
                  ([[0, 0], [0, 0]] ! i)))"
    by simp blast
  from a b startup_second_key_fails startup_both_keys show ?thesis
    by blast
qed

text \<open>
  Claim C3 as stated has no key written into the shared cache when an unwrap fails.
  With two keys of which the first unwraps under the passphrase and the second does
  not, the startup ends with the passphrase mismatch and the first slot of the cache
  holds the first key in plaintext.
\<close>

theorem InitializeKmgr_partial_cache:
  "InitializeKmgr True 2 2 tag_aead ''pw''
     \<lparr>data_dir = \<lparr>pg_cryptokeys = Some [(''0000'', [2, 7]), (''0001'', [3, 8])],
                  pg_cryptokeys_tmp = None\<rparr>,
      intlKeys = [[0, 0], [0, 0]]\<rparr> =
   (Some PassphraseMismatch,
    \<lparr>data_dir = \<lparr>pg_cryptokeys = Some [(''0000'', [2, 7]), (''0001'', [3, 8])],
                 pg_cryptokeys_tmp = None\<rparr>,
     intlKeys = [[7, 0], [0, 0]]\<rparr>)"
  by (rule startup_second_key_fails)


section \<open>Rotation followed by startup\<close>









section \<open>Building the passphrase command\<close>

lemma put_char_below: "length command < M \<Longrightarrow> length (put_char M command c) < M"
  by (auto simp: put_char_def)

lemma put_char_take:
  assumes "length command < M"
  shows "take (M - 1) (put_char M command c @ e) = take (M - 1) (command @ c # e)"
proof (cases "length command < M - 1")
  case True
  then show ?thesis by (simp add: put_char_def)
next
  case False
  with assms have "length command = M - 1" by simp
  then show ?thesis by (simp add: put_char_def)
qed

lemma build_command_end:
  "length command < M \<Longrightarrow> build_command M S [] command = Inr (take (M - 1) command)"
  by simp

lemma build_command_no_prompt:
  "\<not> has_prompt t \<Longrightarrow> length command < M \<Longrightarrow>
   build_command M S t command = Inr (take (M - 1) (command @ expanded_command t))"
proof (induction M S t command rule: build_command.induct)
  case (1 M S command)
  then show ?case by simp
next
  case (2 M S c command)
  have "build_command M S [c] command = Inr (take (M - 1) (put_char M command c))"
    using build_command_end [OF put_char_below [OF "2.prems"(2)]] by simp
  then show ?case
    using put_char_take [OF "2.prems"(2), of c "[]"] by simp
next
  case (3 M S c x rest command)
  note room = "3.prems"(2)
  show ?case
  proof (cases "c = CHR ''%''")
    case False
    then show ?thesis
      using 3 put_char_take [OF room] put_char_below [OF room] by simp
  next
    case True
    then show ?thesis
      using 3 put_char_take [OF room] put_char_below [OF room] by (auto split: if_splits)
  qed
qed

text \<open>
  Claim C4, as amended: for every template in which the loop meets no \<open>%p\<close>, and
  every size of the command array, the command is the template in which \<open>%%\<close> has
  become \<open>%\<close>, a \<open>%\<close> before any other character is kept and followed by that
  character, and every other character is itself, cut after \<open>MAXPGPATH - 1\<close>
  bytes; no template is too long for a command to be built. What a \<open>%p\<close> leaves in
  the command is not part of the statement.
\<close>

theorem kmgr_run_cluster_passphrase_command_expanded:
  "\<not> has_prompt t \<and> 0 < M \<longrightarrow>
     kmgr_run_cluster_passphrase_command M S t = Inr (take (M - 1) (expanded_command t))"
  using build_command_no_prompt [of t "[]" M S]
  by (simp add: kmgr_run_cluster_passphrase_command_def)

lemmas command_defs =
  kmgr_run_cluster_passphrase_command_def put_char_def KMGR_PROMPT_MSG_def strlen_def terminated_copy_def

theorem kmgr_run_cluster_passphrase_command_expanded_witness:
  "\<not> has_prompt ''a%%b%c%'' \<and> (0 :: nat) < 6 \<and>
   take (6 - 1) (expanded_command ''a%%b%c%'') = ''a%b%c'' \<and>
   kmgr_run_cluster_passphrase_command 6 terminated_copy ''a%%b%c%'' = Inr ''a%b%c'' \<and>
   \<not> has_prompt ''echo %%d 100%% %q'' \<and> (0 :: nat) < 1024 \<and>
   kmgr_run_cluster_passphrase_command 1024 terminated_copy ''echo %%d 100%% %q'' =
     Inr ''echo %d 100% %q''"
proof -
  have n1: "\<not> has_prompt ''a%%b%c%''" and n2: "\<not> has_prompt ''echo %%d 100%% %q''"
    by simp_all
  have e1: "take (6 - 1) (expanded_command ''a%%b%c%'') = ''a%b%c''"
    and e2: "take (1024 - 1) (expanded_command ''echo %%d 100%% %q'') = ''echo %d 100% %q''"
    by simp_all
  from kmgr_run_cluster_passphrase_command_expanded [of "''a%%b%c%''" 6 terminated_copy] n1
  have a: "kmgr_run_cluster_passphrase_command 6 terminated_copy ''a%%b%c%'' = Inr ''a%b%c''"
    unfolding e1 by simp
  from kmgr_run_cluster_passphrase_command_expanded
    [of "''echo %%d 100%% %q''" 1024 terminated_copy] n2
  have b: "kmgr_run_cluster_passphrase_command 1024 terminated_copy ''echo %%d 100%% %q'' =
      Inr ''echo %d 100% %q''"
    unfolding e2 by simp
  from n1 n2 e1 a b show ?thesis by simp
qed

text \<open>
  Claim C4 as stated has \<open>%X\<close> give \<open>X\<close> for any \<open>X\<close> other than \<open>p\<close> and
  \<open>%\<close>. The code copies the \<open>%\<close> and then \<open>X\<close>: the template \<open>echo %q\<close>
  comes out unchanged.
\<close>

theorem kmgr_run_cluster_passphrase_command_keeps_percent:
  "kmgr_run_cluster_passphrase_command 1024 terminated_copy ''echo %q'' = Inr ''echo %q'' \<and>
   take (1024 - 1) (specified_command ''echo %q'') = ''echo q'' \<and>
   kmgr_run_cluster_passphrase_command 1024 terminated_copy ''echo %q'' \<noteq>
     Inr (take (1024 - 1) (specified_command ''echo %q''))"
  by (simp add: command_defs)

section \<open>Crashes during a rotation\<close>



















section \<open>The key accessor\<close>

text \<open>
  Claim C8 has \<^verbatim>\<open>KmgrGetKey\<close> return, for every id below \<open>N\<close>, a reference to
  the key in slot id of the shared cache. The code returns the null pointer: here for
  id 0 with one key installed.
\<close>

theorem KmgrGetKey_null:
  "KmgrGetKey 1
     \<lparr>data_dir = \<lparr>pg_cryptokeys = Some [(''0000'', [7, 7])], pg_cryptokeys_tmp = None\<rparr>,
      intlKeys = [[1, 2]]\<rparr> 0 = Inr None"
  by (simp add: KmgrGetKey_def)

end
